theory Spec2Isabelle
  imports Main "HOL-Library.Sublist" "HOL-Library.AList"
begin

section \<open>Python values shared by both scrapers\<close>

text \<open>
  A Python \<open>str\<close> is modelled as a \<open>string\<close>; each \<open>char\<close> stands for one code point
  below 256. Exceptions are values: a call that can raise returns \<open>py_exn + 'a\<close>.
\<close>

datatype py_exn =
    RequestException
  | HTTPError
  | JSONDecodeError
  | IndexError
  | KeyError string
  | ValueError
  | TypeError
  | AttributeError
  | ParserError

section \<open>Source A: the paginated fetch (arlington.py, get_arlington_events)\<close>

text \<open>
  One GET of the event endpoint. \<open>requests.get\<close> may raise; \<open>r.json()\<close> may raise; otherwise
  the body has the shape \<open>{count: int, items: [...]}\<close>. The URI of a run differs between
  requests only in its \<open>From\<close> parameter, so the remote service is a function of that offset.
\<close>

datatype 'a reply =
    Request_raises py_exn
  | Json_raises py_exn
  | Payload int "'a list"

datatype log_entry = Critical py_exn

datatype 'a outcome =
    Returns_None
  | Returns "'a list"
  | Raises py_exn

record 'a fetch_run =
  requested :: "int list"
  logged :: "log_entry list"
  outcome :: "'a outcome"

fun items_of :: "'a reply \<Rightarrow> 'a list" where
  "items_of (Payload c its) = its"
| "items_of _ = []"

fun is_payload :: "'a reply \<Rightarrow> bool" where
  "is_payload (Payload c its) = True"
| "is_payload _ = False"

text \<open>
  The \<open>while from_param < count\<close> loop (lines 43-61). \<open>data_items\<close> is \<open>data['items']\<close> of the
  response held in \<open>data\<close>, \<open>reqs\<close> the offsets requested so far.
\<close>

function fetch_loop ::
  "(int \<Rightarrow> 'a reply) \<Rightarrow> int \<Rightarrow> 'a list \<Rightarrow> int \<Rightarrow> 'a list \<Rightarrow> int list \<Rightarrow> int list \<times> 'a outcome"
where
  "fetch_loop api count data_items from_param event_items reqs =
     (if from_param < count then
        (if from_param = 0 then
           fetch_loop api count data_items (from_param + 5) (event_items @ data_items) reqs
         else
           (case api from_param of
              Request_raises e \<Rightarrow> (reqs @ [from_param], Raises e)
            | Json_raises e \<Rightarrow> (reqs @ [from_param], Raises e)
            | Payload c its \<Rightarrow>
                fetch_loop api count its (from_param + 5) (event_items @ its)
                  (reqs @ [from_param])))
      else (reqs, Returns event_items))"
  by pat_completeness auto
termination
  by (relation "measure (\<lambda>(api, count, d, from_param, ev, reqs). nat (count - from_param))") auto

declare fetch_loop.simps [simp del]

definition get_arlington_events :: "(int \<Rightarrow> 'a reply) \<Rightarrow> 'a fetch_run" where
  "get_arlington_events api =
     (case api 0 of
        Request_raises e \<Rightarrow>
          \<lparr>requested = [0], logged = [Critical e], outcome = Returns_None\<rparr>
      | Json_raises e \<Rightarrow>
          \<lparr>requested = [0], logged = [], outcome = Raises e\<rparr>
      | Payload count its \<Rightarrow>
          (case fetch_loop api count its 0 [] [0] of
             (reqs, out) \<Rightarrow> \<lparr>requested = reqs, logged = [], outcome = out\<rparr>))"

text \<open>The offsets \<open>0, 5, 10, ...\<close> below \<open>count\<close>, in closed form.\<close>

definition page_offsets :: "int \<Rightarrow> int list" where
  "page_offsets count = map (\<lambda>i. 5 * int i) [0..<nat ((count + 4) div 5)]"

section \<open>Sample inputs\<close>

text \<open>Remote services used to run the model on concrete inputs.\<close>

definition unreachable_api :: "int \<Rightarrow> nat reply" where
  "unreachable_api k = Request_raises RequestException"

definition breaks_at_10_api :: "int \<Rightarrow> nat reply" where
  "breaks_at_10_api k = (if k = 10 then Request_raises RequestException else Payload 12 [nat k])"

definition zero_count_api :: "int \<Rightarrow> nat reply" where
  "zero_count_api k = Payload 0 []"

definition twelve_api :: "int \<Rightarrow> nat reply" where
  "twelve_api k = Payload 12 [nat k, nat k + 1]"

text \<open>The offsets \<open>f, f + 5, f + 10, ...\<close> below \<open>count\<close>.\<close>

definition offsets_from :: "int \<Rightarrow> int \<Rightarrow> int list" where
  "offsets_from f count = map (\<lambda>i. f + 5 * int i) [0..<nat ((count - f + 4) div 5)]"

section \<open>Python string operations\<close>

text \<open>\<open>sub in s\<close>: \<open>sub\<close> occurs in \<open>s\<close> as a contiguous substring.\<close>

fun py_in :: "string \<Rightarrow> string \<Rightarrow> bool" where
  "py_in sub [] = (sub = [])"
| "py_in sub (c # cs) = (prefix sub (c # cs) \<or> py_in sub cs)"

text \<open>\<open>str.isspace\<close> on one code point below 256.\<close>

definition py_isspace :: "char \<Rightarrow> bool" where
  "py_isspace c =
     (c \<in> set [CHR 0x09, CHR 0x0A, CHR 0x0B, CHR 0x0C, CHR 0x0D, CHR 0x1C, CHR 0x1D,
                CHR 0x1E, CHR 0x1F, CHR 0x20, CHR 0x85, CHR 0xA0])"

text \<open>\<open>s.strip()\<close>.\<close>

definition py_strip :: "string \<Rightarrow> string" where
  "py_strip s = rev (dropWhile py_isspace (rev (dropWhile py_isspace s)))"

text \<open>The decimal digits \<open>0-9\<close>: the regular expression \<open>\d\<close> on code points below 256.\<close>

definition is_dec :: "char \<Rightarrow> bool" where
  "is_dec c = (c \<in> set ''0123456789'')"

text \<open>
  \<open>str.isdigit\<close> on one code point below 256: the decimal digits and the superscript digits
  two, three and one.
\<close>

definition py_isdigit :: "char \<Rightarrow> bool" where
  "py_isdigit c = (is_dec c \<or> c \<in> set [CHR 0xB2, CHR 0xB3, CHR 0xB9])"

text \<open>\<open>ord(i) < 128\<close>, and the characters that pass it.\<close>

definition is_ascii :: "char \<Rightarrow> bool" where
  "is_ascii c = ((of_char c :: nat) < 128)"

definition ascii_only :: "string \<Rightarrow> string" where
  "ascii_only s = filter is_ascii s"

text \<open>
  \<open>re.sub('  +', repl, s)\<close>: every maximal run of two or more spaces is replaced by
  \<open>repl\<close>.
\<close>

function sub_spaces :: "string \<Rightarrow> string \<Rightarrow> string" where
  "sub_spaces repl [] = []"
| "sub_spaces repl (c # cs) =
     (if c = CHR '' '' \<and> cs \<noteq> [] \<and> hd cs = CHR '' '' then
        repl @ sub_spaces repl (dropWhile (\<lambda>x. x = CHR '' '') cs)
      else c # sub_spaces repl cs)"
  by pat_completeness auto
termination
  by (relation "measure (\<lambda>(repl, s). length s)")
    (auto simp add: less_Suc_eq_le length_dropWhile_le)

declare sub_spaces.simps(2) [simp del]

text \<open>
  \<open>s.replace(old, '')\<close> for a non-empty \<open>old\<close>: the occurrences of \<open>old\<close> are removed from
  left to right, without overlap and without rescanning.
\<close>

function py_remove :: "string \<Rightarrow> string \<Rightarrow> string" where
  "py_remove old s =
     (if old = [] \<or> s = [] then s
      else if prefix old s then py_remove old (drop (length old) s)
      else hd s # py_remove old (tl s))"
  by pat_completeness auto
termination
  by (relation "measure (\<lambda>(old, s). length s)") (auto simp add: neq_Nil_conv)

declare py_remove.simps [simp del]

text \<open>The first component of \<open>s.rpartition(sep)\<close> for a one-character separator.\<close>

definition rpartition_head :: "char \<Rightarrow> string \<Rightarrow> string" where
  "rpartition_head sep s =
     (if sep \<in> set s then rev (tl (dropWhile (\<lambda>c. c \<noteq> sep) (rev s))) else [])"

text \<open>\<open>posixpath.split(p)[-1]\<close> and \<open>posixpath.join(a, b)\<close>.\<close>

definition posixpath_split_tail :: "string \<Rightarrow> string" where
  "posixpath_split_tail p = rev (takeWhile (\<lambda>c. c \<noteq> CHR ''/'') (rev p))"

definition posixpath_join :: "string \<Rightarrow> string \<Rightarrow> string" where
  "posixpath_join a b =
     (if b \<noteq> [] \<and> hd b = CHR ''/'' then b
      else if a = [] \<or> last a = CHR ''/'' then a @ b
      else a @ ''/'' @ b)"

section \<open>Source A: date normalisation (arlington.py, schematize_date)\<close>

record datetime =
  dt_year :: nat
  dt_month :: nat
  dt_day :: nat
  dt_hour :: nat
  dt_minute :: nat
  dt_second :: nat

definition digit_val :: "char \<Rightarrow> nat" where
  "digit_val c = of_char c - 48"

definition digit_char :: "nat \<Rightarrow> char" where
  "digit_char n = ''0123456789'' ! n"

text \<open>\<open>int(t)\<close> for a field matched by one of the directives below.\<close>

definition field_int :: "string \<Rightarrow> nat" where
  "field_int t = foldl (\<lambda>n c. 10 * n + digit_val c) 0 (dropWhile (\<lambda>c. c = CHR '' '') t)"

text \<open>
  The texts accepted by the regular expressions that \<open>strptime\<close> compiles for its
  directives:
  \<open>%m\<close> is \<open>1[0-2]|0[1-9]|[1-9]\<close>,
  \<open>%d\<close> is \<open>3[0-1]|[1-2]\d|0[1-9]|[1-9]| [1-9]\<close>,
  \<open>%H\<close> is \<open>2[0-3]|[0-1]\d|\d\<close>,
  \<open>%M\<close> is \<open>[0-5]\d|\d\<close>,
  \<open>%S\<close> is \<open>6[0-1]|[0-5]\d|\d\<close>, and \<open>%Y\<close> is \<open>\d\d\d\d\<close>.
  \<open>one_of\<close> is a character class, given by its members.
\<close>

definition one_of :: "string \<Rightarrow> char \<Rightarrow> bool" where
  "one_of chars c = (c \<in> set chars)"

fun re_m :: "string \<Rightarrow> bool" where
  "re_m [a, b] = ((a = CHR ''1'' \<and> one_of ''012'' b) \<or> (a = CHR ''0'' \<and> one_of ''123456789'' b))"
| "re_m [a] = one_of ''123456789'' a"
| "re_m _ = False"

fun re_d :: "string \<Rightarrow> bool" where
  "re_d [a, b] =
     ((a = CHR ''3'' \<and> one_of ''01'' b) \<or> (one_of ''12'' a \<and> is_dec b) \<or>
      (a = CHR ''0'' \<and> one_of ''123456789'' b) \<or> (a = CHR '' '' \<and> one_of ''123456789'' b))"
| "re_d [a] = one_of ''123456789'' a"
| "re_d _ = False"

fun re_H :: "string \<Rightarrow> bool" where
  "re_H [a, b] = ((a = CHR ''2'' \<and> one_of ''0123'' b) \<or> (one_of ''01'' a \<and> is_dec b))"
| "re_H [a] = is_dec a"
| "re_H _ = False"

fun re_M :: "string \<Rightarrow> bool" where
  "re_M [a, b] = (one_of ''012345'' a \<and> is_dec b)"
| "re_M [a] = is_dec a"
| "re_M _ = False"

fun re_S :: "string \<Rightarrow> bool" where
  "re_S [a, b] = ((a = CHR ''6'' \<and> one_of ''01'' b) \<or> (one_of ''012345'' a \<and> is_dec b))"
| "re_S [a] = is_dec a"
| "re_S _ = False"

text \<open>
  The text before the first separator and the text after it; \<open>None\<close> when there is no
  separator.
\<close>

definition cut :: "(char \<Rightarrow> bool) \<Rightarrow> string \<Rightarrow> (string \<times> string) option" where
  "cut is_sep s =
     (case dropWhile (\<lambda>c. \<not> is_sep c) s of
        [] \<Rightarrow> None
      | c # rest \<Rightarrow> Some (takeWhile (\<lambda>c. \<not> is_sep c) s, rest))"

definition is_leap :: "nat \<Rightarrow> bool" where
  "is_leap y = (y mod 4 = 0 \<and> (y mod 100 \<noteq> 0 \<or> y mod 400 = 0))"

definition days_in_month :: "nat \<Rightarrow> nat \<Rightarrow> nat" where
  "days_in_month y m =
     (if m = 2 then (if is_leap y then 29 else 28)
      else if m \<in> set [4, 6, 9, 11] then 30 else 31)"

text \<open>
  \<open>datetime.strptime(s, "%Y-%m-%dT%H:%M:%S")\<close>. The format is compiled to a regular
  expression that is matched, ignoring case, at the start of \<open>s\<close>; no field but the last can
  end anywhere but at its separator, and text left over after the seconds is an error.
  The matched fields are then turned into a \<open>datetime\<close>, which rejects the year 0, a day
  that the month does not have and the seconds 60 and 61. Every failure is a ValueError.
\<close>

definition strptime :: "string \<Rightarrow> py_exn + datetime" where
  "strptime s =
     (if 5 \<le> length s \<and> list_all is_dec (take 4 s) \<and> s ! 4 = CHR ''-'' then
        (case cut (\<lambda>c. c = CHR ''-'') (drop 5 s) of
           None \<Rightarrow> Inl ValueError
         | Some (m, r1) \<Rightarrow>
        (case cut (\<lambda>c. c = CHR ''T'' \<or> c = CHR ''t'') r1 of
           None \<Rightarrow> Inl ValueError
         | Some (d, r2) \<Rightarrow>
        (case cut (\<lambda>c. c = CHR '':'') r2 of
           None \<Rightarrow> Inl ValueError
         | Some (H, r3) \<Rightarrow>
        (case cut (\<lambda>c. c = CHR '':'') r3 of
           None \<Rightarrow> Inl ValueError
         | Some (M, S) \<Rightarrow>
             if re_m m \<and> re_d d \<and> re_H H \<and> re_M M \<and> re_S S then
               (let year = field_int (take 4 s); month = field_int m; day = field_int d;
                    second = field_int S
                in if year = 0 \<or> days_in_month year month < day \<or> 59 < second
                   then Inl ValueError
                   else Inr \<lparr>dt_year = year, dt_month = month, dt_day = day,
                             dt_hour = field_int H, dt_minute = field_int M,
                             dt_second = second\<rparr>)
             else Inl ValueError))))
      else Inl ValueError)"

text \<open>
  \<open>datetime.strftime(d, "%Y-%m-%d")\<close>, which hands the fields to the C library: the year
  in decimal as it is, without padding, the month and the day as two digits, zero-padded.
\<close>

function decimal :: "nat \<Rightarrow> string" where
  "decimal n = (if n < 10 then [digit_char n] else decimal (n div 10) @ [digit_char (n mod 10)])"
  by pat_completeness auto
termination
  by (relation "measure (\<lambda>n. n)") auto

declare decimal.simps [simp del]

definition pad2 :: "nat \<Rightarrow> string" where
  "pad2 n = [digit_char (n div 10 mod 10), digit_char (n mod 10)]"

definition strftime_date :: "datetime \<Rightarrow> string" where
  "strftime_date d = decimal (dt_year d) @ ''-'' @ pad2 (dt_month d) @ ''-'' @ pad2 (dt_day d)"

text \<open>
  \<open>schematize_date\<close> (lines 149-161): a ValueError of the parse is caught and logged and
  the empty string returned; any other exception would leave the function.
\<close>

definition schematize_date :: "string \<Rightarrow> py_exn + string" where
  "schematize_date event_date =
     (case strptime event_date of
        Inl e \<Rightarrow> (if e = ValueError then Inr [] else Inl e)
      | Inr datetime_obj \<Rightarrow> Inr (strftime_date datetime_obj))"

text \<open>
  The strings of the exact shape \<open>dddd-dd-ddTdd:dd:dd\<close>, and those of them that denote a
  date and a time of day.
\<close>

fun exact_format :: "string \<Rightarrow> bool" where
  "exact_format [y1, y2, y3, y4, c1, m1, m2, c2, d1, d2, c3, h1, h2, c4, n1, n2, c5, s1, s2] =
     (list_all is_dec [y1, y2, y3, y4, m1, m2, d1, d2, h1, h2, n1, n2, s1, s2] \<and>
      c1 = CHR ''-'' \<and> c2 = CHR ''-'' \<and> c3 = CHR ''T'' \<and> c4 = CHR '':'' \<and> c5 = CHR '':'')"
| "exact_format _ = False"

definition valid_timestamp :: "string \<Rightarrow> bool" where
  "valid_timestamp s =
     (exact_format s \<and>
      (let year = field_int (take 4 s); month = field_int (take 2 (drop 5 s));
           day = field_int (take 2 (drop 8 s)); hour = field_int (take 2 (drop 11 s));
           minute = field_int (take 2 (drop 14 s)); second = field_int (take 2 (drop 17 s))
       in 1 \<le> year \<and> 1 \<le> month \<and> month \<le> 12 \<and> 1 \<le> day \<and> day \<le> days_in_month year month \<and>
          hour \<le> 23 \<and> minute \<le> 59 \<and> second \<le> 59))"

text \<open>
  The timestamps that \<open>schematize_date\<close> reads, described field by field: a year of four
  digits, not 0000; a month, an hour, a minute and a second of one or two digits; a day of
  one or two digits, or of a space and a digit; \<open>T\<close> in either case between the date and the
  time of day; and the values those of a calendar date and of a time of day.
\<close>

definition digits12 :: "string \<Rightarrow> bool" where
  "digits12 f = ((length f = 1 \<or> length f = 2) \<and> list_all is_dec f)"

definition day_text :: "string \<Rightarrow> bool" where
  "day_text f = (digits12 f \<or> (length f = 2 \<and> hd f = CHR '' '' \<and> is_dec (last f)))"

definition timestamp_fields ::
  "string \<Rightarrow> string \<Rightarrow> string \<Rightarrow> char \<Rightarrow> string \<Rightarrow> string \<Rightarrow> string \<Rightarrow> bool" where
  "timestamp_fields Y m d t H M S =
     (length Y = 4 \<and> list_all is_dec Y \<and> 1 \<le> field_int Y \<and>
      digits12 m \<and> 1 \<le> field_int m \<and> field_int m \<le> 12 \<and>
      day_text d \<and> 1 \<le> field_int d \<and> field_int d \<le> days_in_month (field_int Y) (field_int m) \<and>
      (t = CHR ''T'' \<or> t = CHR ''t'') \<and>
      digits12 H \<and> field_int H \<le> 23 \<and>
      digits12 M \<and> field_int M \<le> 59 \<and>
      digits12 S \<and> field_int S \<le> 59)"

definition join_fields ::
  "string \<Rightarrow> string \<Rightarrow> string \<Rightarrow> char \<Rightarrow> string \<Rightarrow> string \<Rightarrow> string \<Rightarrow> string" where
  "join_fields Y m d t H M S = Y @ ''-'' @ m @ ''-'' @ d @ [t] @ H @ '':'' @ M @ '':'' @ S"

section \<open>Source A: text cleaning (arlington.py, html_textraction and parse_event_name)\<close>

text \<open>
  What the code reads from \<open>BeautifulSoup(html, 'html.parser')\<close>: the \<open>get_text()\<close> of every
  \<open>p\<close> tag, in document order, and the \<open>get_text()\<close> of the whole document. The HTML parser
  itself is a parameter \<open>bs\<close> of the functions that call it.
\<close>

record soup_text =
  p_texts :: "string list"
  whole_text :: string

text \<open>
  \<open>html_textraction\<close> (lines 83-109). \<open>None\<close> is JSON's \<open>null\<close>; \<open>not html\<close> holds for \<open>None\<close>
  and for the empty string.
\<close>

definition html_textraction :: "(string \<Rightarrow> soup_text) \<Rightarrow> string option \<Rightarrow> string" where
  "html_textraction bs html =
     sub_spaces '' ''
       (case html of
          None \<Rightarrow> ''See event website.''
        | Some h \<Rightarrow>
            if h = [] then ''See event website.''
            else
              (let soup = bs h in
               if p_texts soup \<noteq> [] then
                 py_strip
                   (foldl (\<lambda>text p_text.
                             if \<not> py_in ''Activity #'' p_text then text @ p_text @ '' '' else text)
                      [] (p_texts soup))
               else py_strip (whole_text soup)))"

text \<open>\<open>parse_event_name\<close> (lines 112-146).\<close>

definition parse_event_name :: "(string \<Rightarrow> soup_text) \<Rightarrow> string \<Rightarrow> string" where
  "parse_event_name bs event_name =
     (if py_in ''RIP'' event_name \<or> py_in ''RiP'' event_name \<or>
         py_in ''Invasive Plant Removal'' event_name then
        (if py_in ''Invasive Plant Removal'' event_name then
           (let name = py_remove ''RIP'' (py_remove '' - '' (py_remove ''RiP''
                         (sub_spaces [] (ascii_only event_name))));
                name = py_strip (sub_spaces '' '' name)
            in html_textraction bs (Some name))
         else
           (let name = sub_spaces [] (ascii_only event_name);
                name = py_remove '' - '' (py_remove ''RIP'' (py_remove ''RiP'' name));
                name = name @ '' Invasive Plant Removal'';
                name = py_strip (sub_spaces '' '' name)
            in html_textraction bs (Some name)))
      else html_textraction bs (Some event_name))"

text \<open>
  \<open>BeautifulSoup\<close> on a text without markup (no tag, no character reference): no \<open>p\<close> tag
  is found and the text of the document is the input.
\<close>

definition plain_text_soup :: "string \<Rightarrow> soup_text" where
  "plain_text_soup html = \<lparr>p_texts = [], whole_text = html\<rparr>"

section \<open>Source A: the schema mapper (arlington.py, get_event_website and schematize_events)\<close>

text \<open>
  The object under \<open>vwEventWithLocation\<close> of one item of the API, with the fields the code
  reads; an optional field is \<open>None\<close> for JSON's \<open>null\<close>.
\<close>

record vw_event =
  eventName :: string
  eventDsc :: "string option"
  eventStartDate :: string
  eventEndDate :: string
  eventStartTime :: "string option"
  eventEndTime :: "string option"
  eventUrlText :: "string option"
  freeOfChargeInd :: bool
  eventCostDsc :: "string option"
  locationName :: "string option"

text \<open>One event in the output schema: the dictionary built at lines 200-213.\<close>

record event =
  Event_Start_Date :: string
  Event_End_Date :: string
  Event_Start_Time :: "string option"
  Event_End_Time :: "string option"
  Event_Website :: "string option"
  Event_Name :: string
  Event_Venue_Name :: string
  Event_Cost :: string
  Event_Description :: string
  Timezone :: string
  Event_Organizers :: string
  Event_Currency_Symbol :: string
  All_Day_Event :: bool
  Event_Category :: string

text \<open>Truth value of an optional string: \<open>None\<close> and the empty string are false.\<close>

definition truthy :: "string option \<Rightarrow> bool" where
  "truthy v = (case v of None \<Rightarrow> False | Some s \<Rightarrow> s \<noteq> [])"

text \<open>
  \<open>get_event_website\<close> (lines 66-80). The search service is a function of the search term;
  its reply has the shape of the event endpoint's.
\<close>

fun scan_search_items :: "string \<Rightarrow> string \<Rightarrow> vw_event list \<Rightarrow> py_exn + string option" where
  "scan_search_items start_date end_date [] = Inr None"
| "scan_search_items start_date end_date (item # items) =
     (case schematize_date (eventStartDate item) of
        Inl e \<Rightarrow> Inl e
      | Inr item_start_date \<Rightarrow>
     (case schematize_date (eventEndDate item) of
        Inl e \<Rightarrow> Inl e
      | Inr item_end_date \<Rightarrow>
          if start_date = item_start_date \<and> end_date = item_end_date
          then Inr (eventUrlText item)
          else scan_search_items start_date end_date items))"

definition get_event_website ::
  "(string \<Rightarrow> vw_event reply) \<Rightarrow> string \<Rightarrow> string \<Rightarrow> string \<Rightarrow> py_exn + string option"
where
  "get_event_website search event_name start_date end_date =
     (case search event_name of
        Request_raises e \<Rightarrow> Inl e
      | Json_raises e \<Rightarrow> Inl e
      | Payload c items \<Rightarrow> scan_search_items start_date end_date items)"

text \<open>
  The body of the loop of \<open>schematize_events\<close> (lines 177-214) for one item: \<open>Inr None\<close> is
  \<open>continue\<close>, \<open>Inr (Some event)\<close> the event appended, \<open>Inl e\<close> an exception that leaves the
  function.
\<close>

definition schematize_event ::
  "(string \<Rightarrow> soup_text) \<Rightarrow> (string \<Rightarrow> vw_event reply) \<Rightarrow> vw_event \<Rightarrow> py_exn + event option"
where
  "schematize_event bs search event_item =
     (let event_name = parse_event_name bs (eventName event_item) in
      if py_in ''Task Force'' event_name \<or> py_in ''Forestry Commission'' event_name
      then Inr None
      else
        (let event_description = html_textraction bs (eventDsc event_item) in
         case schematize_date (eventStartDate event_item) of
           Inl e \<Rightarrow> Inl e
         | Inr start_date \<Rightarrow>
        (case schematize_date (eventEndDate event_item) of
           Inl e \<Rightarrow> Inl e
         | Inr end_date \<Rightarrow>
        (let start_time = eventStartTime event_item;
             end_time = eventEndTime event_item;
             event_website = eventUrlText event_item;
             event_cost =
               (if freeOfChargeInd event_item then ''0''
                else if truthy (eventCostDsc event_item)
                then filter py_isdigit (the (eventCostDsc event_item))
                else []);
             venue = html_textraction bs (locationName event_item)
         in if venue = ''Earth Products Yard'' \<or> py_in ''Library'' venue \<or> venue = []
            then Inr None
            else
              (case (if \<not> truthy event_website
                     then get_event_website search event_name start_date end_date
                     else Inr event_website) of
                 Inl e \<Rightarrow> Inl e
               | Inr event_website \<Rightarrow>
                   Inr (Some
                     \<lparr>Event_Start_Date = start_date,
                      Event_End_Date = end_date,
                      Event_Start_Time = start_time,
                      Event_End_Time = end_time,
                      Event_Website = event_website,
                      Event_Name = event_name,
                      Event_Venue_Name = (if venue \<noteq> [] then venue else ''See event website''),
                      Event_Cost = event_cost,
                      Event_Description = event_description,
                      Timezone = ''America/New_York'',
                      Event_Organizers = ''Arlington Parks'',
                      Event_Currency_Symbol = ''$'',
                      All_Day_Event = False,
                      Event_Category = []\<rparr>))))))"

text \<open>The loop of \<open>schematize_events\<close> over the items, and the function (lines 164-216).\<close>

fun schematize_loop ::
  "(string \<Rightarrow> soup_text) \<Rightarrow> (string \<Rightarrow> vw_event reply) \<Rightarrow> event list \<Rightarrow> vw_event list
     \<Rightarrow> py_exn + event list"
where
  "schematize_loop bs search events [] = Inr events"
| "schematize_loop bs search events (event_item # event_items) =
     (case schematize_event bs search event_item of
        Inl e \<Rightarrow> Inl e
      | Inr None \<Rightarrow> schematize_loop bs search events event_items
      | Inr (Some event) \<Rightarrow> schematize_loop bs search (events @ [event]) event_items)"

definition schematize_events ::
  "(string \<Rightarrow> soup_text) \<Rightarrow> (string \<Rightarrow> vw_event reply) \<Rightarrow> vw_event list \<Rightarrow> py_exn + event list"
where
  "schematize_events bs search event_items = schematize_loop bs search [] event_items"

text \<open>
  The cost that claim C7 states for an item, the exclusion that claim C8 states, and the
  normalised name and venue they refer to.
\<close>

definition cost_rule :: "vw_event \<Rightarrow> string" where
  "cost_rule item =
     (if freeOfChargeInd item then ''0''
      else case eventCostDsc item of
             None \<Rightarrow> []
           | Some dsc \<Rightarrow> if dsc \<noteq> [] then filter py_isdigit dsc else [])"

definition normalized_name :: "(string \<Rightarrow> soup_text) \<Rightarrow> vw_event \<Rightarrow> string" where
  "normalized_name bs item = parse_event_name bs (eventName item)"

definition normalized_venue :: "(string \<Rightarrow> soup_text) \<Rightarrow> vw_event \<Rightarrow> string" where
  "normalized_venue bs item = html_textraction bs (locationName item)"

definition excluded :: "(string \<Rightarrow> soup_text) \<Rightarrow> vw_event \<Rightarrow> bool" where
  "excluded bs item =
     (py_in ''Task Force'' (normalized_name bs item) \<or>
      py_in ''Forestry Commission'' (normalized_name bs item) \<or>
      normalized_venue bs item = ''Earth Products Yard'' \<or>
      py_in ''Library'' (normalized_venue bs item) \<or>
      normalized_venue bs item = [])"

text \<open>Items of the event API and a search service without results, to run the mapper on.\<close>

definition bird_walk :: vw_event where
  "bird_walk =
     \<lparr>eventName = ''Bird Walk'', eventDsc = Some ''Meet at the  pond.'',
      eventStartDate = ''2019-01-25T00:00:00'', eventEndDate = ''2019-01-25T00:00:00'',
      eventStartTime = Some ''09:00:00'', eventEndTime = Some ''10:00:00'',
      eventUrlText = Some ''https://parks.example/bird-walk'', freeOfChargeInd = True,
      eventCostDsc = Some ''$5 for the guide book'',
      locationName = Some ''Long Branch Nature Center''\<rparr>"

definition campfire :: vw_event where
  "campfire =
     bird_walk\<lparr>eventName := ''Campfire'', freeOfChargeInd := False,
       eventCostDsc := Some ''$5 per person, ages 12+''\<rparr>"

definition story_time :: vw_event where
  "story_time =
     bird_walk\<lparr>eventName := ''Story Time'', locationName := Some ''Arlington Central Library''\<rparr>"

definition rip_barcroft :: vw_event where
  "rip_barcroft =
     bird_walk\<lparr>eventName := ''RiP - Barcroft Park'', freeOfChargeInd := False,
       eventCostDsc := None, locationName := Some ''Barcroft Park''\<rparr>"

definition task_force :: vw_event where
  "task_force = bird_walk\<lparr>eventName := ''Urban Forestry Commission Meeting''\<rparr>"

definition sample_items :: "vw_event list" where
  "sample_items = [bird_walk, story_time, campfire, task_force, rip_barcroft]"

definition no_results_search :: "string \<Rightarrow> vw_event reply" where
  "no_results_search term = Payload 0 []"


section \<open>Source B: the calendar pages (patc.py, make_request_content)\<close>

text \<open>
  What the code reads from a parsed page. Of every \<open>a\<close> tag its \<open>href\<close> attribute, if it has
  one; of every \<open>th\<close> tag its text; of every \<open>p\<close> tag its text, the texts of its \<open>strong\<close>
  tags, its children and the \<open>href\<close> attributes of its \<open>a\<close> tags. A child is a
  \<open>NavigableString\<close>, which is a \<open>str\<close>, or a tag, of which only the text is read.
\<close>

datatype node = NavigableString string | Tag string

record para =
  p_text :: string
  p_strongs :: "string list"
  p_children :: "node list"
  p_anchors :: "string option list"

record soup =
  a_hrefs :: "string option list"
  th_texts :: "string list"
  paras :: "para list"

definition URL_BASE :: string where
  "URL_BASE = ''https://www.patc.net/PATC/Calendar/PATC/''"

definition CALENDAR_BASE_URL :: string where
  "CALENDAR_BASE_URL = ''Custom/Calendar.aspx?hkey=9fc06544-1c54-4a47-9efc-8fcd2420a646''"

definition KEYWORDS :: "string list" where
  "KEYWORDS = [''Start Time'', ''Start Date'', ''Event Category'', ''www'']"

definition RENAME_MAP :: "(string \<times> string) list" where
  "RENAME_MAP =
     [(''all_day_event'', ''All Day Event''),
      (''currency'', ''Event Currency Symbol''),
      (''Description'', ''Event Description''),
      (''end_date'', ''Event End Date''),
      (''end_time'', ''Event End Time''),
      (''event_cost'', ''Event Cost''),
      (''event_organizers'', ''Event Organizers''),
      (''start_date'', ''Event Start Date''),
      (''start_time'', ''Event Start Time''),
      (''time_zone'', ''Timezone''),
      (''venue'', ''Event Venue Name''),
      (''www'', ''Event Website'')]"

text \<open>
  \<open>make_request_content\<close> (lines 30-46). The site is a function \<open>web\<close> from the URL to the
  parsed page, or to the exception that \<open>requests.get\<close> or \<open>raise_for_status\<close> raises.
\<close>

definition make_request_content :: "(string \<Rightarrow> py_exn + soup) \<Rightarrow> string \<Rightarrow> py_exn + soup" where
  "make_request_content web url_subpath = web (posixpath_join URL_BASE url_subpath)"

section \<open>Source B: one detail page (patc.py, find_event_data)\<close>

text \<open>\<open>any([word + ":" in para.getText() for word in KEYWORDS])\<close>.\<close>

definition keyword_para :: "para \<Rightarrow> bool" where
  "keyword_para p = list_ex (\<lambda>word. py_in (word @ '':'') (p_text p)) KEYWORDS"

text \<open>\<open>value.getText()\<close> unless \<open>value\<close> is a \<open>str\<close>.\<close>

fun node_text :: "node \<Rightarrow> string" where
  "node_text (NavigableString s) = s"
| "node_text (Tag s) = s"

text \<open>
  The body of the loop for a paragraph that holds a keyword (lines 74-88): the category and
  the value stored under it. \<open>mi.one\<close> raises ValueError unless there is exactly one item,
  \<open>mi.last\<close> raises ValueError when there is none, and an \<open>a\<close> tag without \<open>href\<close> gives
  \<open>None\<close>, on which \<open>getText\<close> raises AttributeError.
\<close>

definition para_field :: "para \<Rightarrow> py_exn + (string \<times> string)" where
  "para_field p =
     (case p_strongs p of
        [header] \<Rightarrow>
          (let category = rpartition_head CHR '':'' header in
           if p_children p = [] then Inl ValueError
           else
             (let value = last (p_children p) in
              if category = ''www'' then
                (case p_anchors p of
                   [url_tag] \<Rightarrow>
                     (case url_tag of
                        None \<Rightarrow> Inl AttributeError
                      | Some href \<Rightarrow> Inr (category, py_strip (ascii_only href)))
                 | _ \<Rightarrow> Inl ValueError)
              else Inr (category, py_strip (ascii_only (node_text value)))))
      | _ \<Rightarrow> Inl ValueError)"

text \<open>
  The loop over the paragraphs (lines 72-88). \<open>results\<close> is the dict, kept as the list of
  its items in insertion order; \<open>results[category] = v\<close> is \<open>AList.update\<close>.
\<close>

fun scan_paras :: "para list \<Rightarrow> (string \<times> string) list \<Rightarrow> py_exn + (string \<times> string) list" where
  "scan_paras [] results = Inr results"
| "scan_paras (p # ps) results =
     (if keyword_para p then
        (case para_field p of
           Inl e \<Rightarrow> Inl e
         | Inr (category, v) \<Rightarrow> scan_paras ps (AList.update category v results))
      else scan_paras ps results)"

text \<open>
  \<open>find_event_data\<close> (lines 49-90). \<open>[-1]\<close> on an empty list raises IndexError, which is
  caught: the function then returns \<open>None\<close>.
\<close>

definition initial_results :: "soup \<Rightarrow> (string \<times> string) list" where
  "initial_results res =
     [(''Event Name'', py_strip (last (th_texts res))),
      (''Description'', py_strip (p_text (last (paras res))))]"

definition find_event_data ::
  "(string \<Rightarrow> py_exn + soup) \<Rightarrow> string \<Rightarrow> py_exn + (string \<times> string) list option" where
  "find_event_data web link =
     (case make_request_content web link of
        Inl e \<Rightarrow> Inl e
      | Inr res \<Rightarrow>
          if th_texts res = [] \<or> paras res = [] then Inr None
          else
            (case scan_paras (paras res) (initial_results res) of
               Inl e \<Rightarrow> Inl e
             | Inr results \<Rightarrow> Inr (Some results)))"

section \<open>Source B: the data frame (patc.py, format_df_time_columns and main)\<close>

text \<open>
  A \<open>pandas.DataFrame\<close> with the default index: the number of rows and the columns in
  order, each a label and one cell for every row. Labels may repeat after \<open>rename\<close>.
\<close>

datatype cell = NaN | PyStr string | PyBool bool | PyInt int | PyDate nat nat nat

record frame =
  n_rows :: nat
  columns :: "(string \<times> cell list) list"

text \<open>
  \<open>pd.DataFrame.from_records(records)\<close> for a list of dicts: the columns are the keys in
  the order of their first appearance, and a record without a key has \<open>NaN\<close> there.
\<close>

definition from_records :: "(string \<times> string) list list \<Rightarrow> frame" where
  "from_records records =
     \<lparr>n_rows = length records,
      columns =
        map (\<lambda>k. (k, map (\<lambda>r. case map_of r k of None \<Rightarrow> NaN | Some v \<Rightarrow> PyStr v) records))
          (rev (remdups (rev (concat (map (map fst) records)))))\<rparr>"

text \<open>\<open>df[label]\<close>, \<open>df[label] = cells\<close>, and \<open>df.assign(label=value)\<close> for a scalar.\<close>

definition getitem :: "frame \<Rightarrow> string \<Rightarrow> py_exn + cell list" where
  "getitem df label =
     (case map_of (columns df) label of None \<Rightarrow> Inl (KeyError label) | Some cells \<Rightarrow> Inr cells)"

definition setitem :: "frame \<Rightarrow> string \<Rightarrow> cell list \<Rightarrow> frame" where
  "setitem df label cells = df\<lparr>columns := AList.update label cells (columns df)\<rparr>"

definition assign :: "string \<Rightarrow> cell \<Rightarrow> frame \<Rightarrow> frame" where
  "assign label v df = setitem df label (replicate (n_rows df) v)"

text \<open>
  \<open>series.apply(f)\<close>: \<open>f\<close> on every cell in turn, and the first exception raised.
\<close>

fun apply_cells :: "(cell \<Rightarrow> py_exn + cell) \<Rightarrow> cell list \<Rightarrow> py_exn + cell list" where
  "apply_cells f [] = Inr []"
| "apply_cells f (c # cs) =
     (case f c of
        Inl e \<Rightarrow> Inl e
      | Inr v \<Rightarrow> (case apply_cells f cs of Inl e \<Rightarrow> Inl e | Inr vs \<Rightarrow> Inr (v # vs)))"

text \<open>
  The two lambdas of \<open>format_df_time_columns\<close>. \<open>parse\<close> is \<open>dateutil.parser.parse\<close>, a
  parameter; it raises TypeError on a cell that is not a string.
\<close>

definition parse_date :: "(string \<Rightarrow> py_exn + datetime) \<Rightarrow> cell \<Rightarrow> py_exn + cell" where
  "parse_date parse x =
     (case x of
        PyStr s \<Rightarrow>
          (case parse s of
             Inl e \<Rightarrow> Inl e
           | Inr d \<Rightarrow> Inr (PyDate (dt_year d) (dt_month d) (dt_day d)))
      | _ \<Rightarrow> Inl TypeError)"

definition parse_time :: "(string \<Rightarrow> py_exn + datetime) \<Rightarrow> cell \<Rightarrow> py_exn + cell" where
  "parse_time parse x =
     (case x of
        PyStr s \<Rightarrow>
          (case parse s of
             Inl e \<Rightarrow> Inl e
           | Inr d \<Rightarrow>
               Inr (PyStr (pad2 (dt_hour d) @ '':'' @ pad2 (dt_minute d) @ '':'' @ pad2 (dt_second d))))
      | _ \<Rightarrow> Inl TypeError)"

text \<open>\<open>format_df_time_columns\<close> (lines 93-118): the loop over \<open>cols_mapper\<close>.\<close>

definition cols_mapper :: "(string \<times> string) list" where
  "cols_mapper =
     [(''start_date'', ''Start Date''), (''start_time'', ''Start Time''),
      (''end_date'', ''Start Date'')]"

fun format_loop ::
  "(string \<Rightarrow> py_exn + datetime) \<Rightarrow> (string \<times> string) list \<Rightarrow> frame \<Rightarrow> py_exn + frame" where
  "format_loop parse [] df = Inr df"
| "format_loop parse ((key, val) # rest) df =
     (case getitem df val of
        Inl e \<Rightarrow> Inl e
      | Inr cells \<Rightarrow>
          (case apply_cells (if py_in ''date'' key then parse_date parse else parse_time parse) cells of
             Inl e \<Rightarrow> Inl e
           | Inr vs \<Rightarrow> format_loop parse rest (setitem df key vs)))"

definition format_df_time_columns :: "(string \<Rightarrow> py_exn + datetime) \<Rightarrow> frame \<Rightarrow> py_exn + frame" where
  "format_df_time_columns parse df = format_loop parse cols_mapper df"

text \<open>
  \<open>df.drop(labels, axis=1)\<close>, which raises KeyError for a label that is no column, and
  \<open>df.rename(columns=mapper)\<close>.
\<close>

definition drop_columns :: "string list \<Rightarrow> frame \<Rightarrow> py_exn + frame" where
  "drop_columns labels df =
     (case filter (\<lambda>l. l \<notin> fst ` set (columns df)) labels of
        [] \<Rightarrow> Inr (df\<lparr>columns := filter (\<lambda>(l, cells). l \<notin> set labels) (columns df)\<rparr>)
      | l # ls \<Rightarrow> Inl (KeyError l))"

definition rename_columns :: "(string \<times> string) list \<Rightarrow> frame \<Rightarrow> frame" where
  "rename_columns mapper df =
     df\<lparr>columns :=
          map (\<lambda>(l, cells). (case map_of mapper l of None \<Rightarrow> l | Some l' \<Rightarrow> l', cells))
            (columns df)\<rparr>"

text \<open>
  The loop of \<open>main\<close> over the \<open>a\<close> tags of the calendar (lines 125-135). A dict is true
  when it is not empty.
\<close>

fun crawl ::
  "(string \<Rightarrow> py_exn + soup) \<Rightarrow> string option list \<Rightarrow> (string \<times> string) list list \<Rightarrow>
   py_exn + (string \<times> string) list list" where
  "crawl web [] records = Inr records"
| "crawl web (href # hrefs) records =
     (let event_link = (case href of None \<Rightarrow> [] | Some l \<Rightarrow> l) in
      if py_in ''calendar.aspx'' event_link then
        (let url = posixpath_split_tail event_link in
         case find_event_data web (posixpath_join ''Custom'' url) of
           Inl e \<Rightarrow> Inl e
         | Inr data \<Rightarrow>
             (case data of
                None \<Rightarrow> crawl web hrefs records
              | Some d \<Rightarrow>
                  if d \<noteq> [] then crawl web hrefs (records @ [d])
                  else crawl web hrefs records))
      else crawl web hrefs records)"

text \<open>The defaults that \<open>main\<close> assigns (lines 138-146), in the order of the call.\<close>

definition defaults :: "(string \<times> cell) list" where
  "defaults =
     [(''all_day_event'', PyBool False),
      (''time_zone'', PyStr ''America/New_York''),
      (''end_time'', PyStr ''23:59:59''),
      (''event_cost'', PyInt 0),
      (''currency'', PyStr ''$''),
      (''venue'', PyStr ''Please refer to website''),
      (''event_organizers'', PyStr ''Potomac Appalachian Trail Club'')]"

definition assign_all :: "(string \<times> cell) list \<Rightarrow> frame \<Rightarrow> frame" where
  "assign_all kwargs df = foldl (\<lambda>d (label, v). assign label v d) df kwargs"

text \<open>\<open>main\<close> (lines 121-152).\<close>

definition main :: "(string \<Rightarrow> py_exn + soup) \<Rightarrow> (string \<Rightarrow> py_exn + datetime) \<Rightarrow> py_exn + frame" where
  "main web parse =
     (case make_request_content web CALENDAR_BASE_URL of
        Inl e \<Rightarrow> Inl e
      | Inr events \<Rightarrow>
          (case crawl web (a_hrefs events) [] of
             Inl e \<Rightarrow> Inl e
           | Inr records \<Rightarrow>
               (case format_df_time_columns parse (assign_all defaults (from_records records)) of
                  Inl e \<Rightarrow> Inl e
                | Inr df \<Rightarrow>
                    (case drop_columns [''Start Date'', ''Start Time''] df of
                       Inl e \<Rightarrow> Inl e
                     | Inr df' \<Rightarrow> Inr (rename_columns RENAME_MAP df')))))"

text \<open>The records of a frame: for every row, the labels with the cells of that row.\<close>

definition frame_records :: "frame \<Rightarrow> (string \<times> cell) list list" where
  "frame_records df = map (\<lambda>i. map (\<lambda>(l, cells). (l, cells ! i)) (columns df)) [0..<n_rows df]"

text \<open>
  Sample pages. A site is its calendar page and its detail pages by URL; every other URL
  answers with an HTTP error.
\<close>

definition site :: "soup \<Rightarrow> (string \<times> soup) list \<Rightarrow> string \<Rightarrow> py_exn + soup" where
  "site calendar pages url =
     (if url = posixpath_join URL_BASE CALENDAR_BASE_URL then Inr calendar
      else (case map_of pages url of None \<Rightarrow> Inl HTTPError | Some page \<Rightarrow> Inr page))"

definition labelled :: "string \<Rightarrow> string \<Rightarrow> para" where
  "labelled label text =
     \<lparr>p_text = label @ text, p_strongs = [label],
      p_children = [Tag label, NavigableString text], p_anchors = []\<rparr>"

definition plain_para :: "string \<Rightarrow> para" where
  "plain_para text =
     \<lparr>p_text = text, p_strongs = [], p_children = [NavigableString text], p_anchors = []\<rparr>"

definition hike_page :: soup where
  "hike_page =
     \<lparr>a_hrefs = [], th_texts = [''Calendar'', '' Hike at Sugarloaf ''],
      paras =
        [labelled ''Start Date:'' '' 2019-06-01T09:00:00'',
         labelled ''Start Time:'' '' 2019-06-01T09:00:00'',
         \<lparr>p_text = ''www: details'', p_strongs = [''www:''],
          p_children = [Tag ''www:'', NavigableString '' '', Tag ''details''],
          p_anchors = [Some ''https://www.patc.net/hike'']\<rparr>,
         plain_para ''A long hike.'']\<rparr>"

definition trail_page :: soup where
  "trail_page =
     \<lparr>a_hrefs = [], th_texts = [''Trail work''],
      paras =
        [labelled ''Start Date:'' '' 2019-06-08T08:30:00'',
         labelled ''Start Time:'' '' 2019-06-08T08:30:00'',
         plain_para ''Bring gloves.'']\<rparr>"

definition faulty_page :: soup where
  "faulty_page = \<lparr>a_hrefs = [], th_texts = [], paras = [plain_para ''Cancelled.'']\<rparr>"

definition undated_page :: soup where
  "undated_page = \<lparr>a_hrefs = [], th_texts = [''Meeting''], paras = [plain_para ''To be announced.'']\<rparr>"

definition ambiguous_page :: soup where
  "ambiguous_page =
     \<lparr>a_hrefs = [], th_texts = [''Work trip''],
      paras =
        [labelled ''Start Date:'' '' 2019-06-15T08:00:00'',
         \<lparr>p_text = ''Start Time: 2019-06-15T08:00:00 (sharp)'', p_strongs = [''Start Time:'', ''(sharp)''],
          p_children = [Tag ''Start Time:'', NavigableString '' 2019-06-15T08:00:00 '', Tag ''(sharp)''],
          p_anchors = []\<rparr>,
         plain_para ''Meet at the trailhead.'']\<rparr>"

definition calendar_of :: "string list \<Rightarrow> soup" where
  "calendar_of ids =
     \<lparr>a_hrefs =
        Some ''/PATC/Home'' # None #
        map (\<lambda>i. Some (''https://www.patc.net/PATC/Calendar/PATC/Custom/calendar.aspx?id='' @ i)) ids,
      th_texts = [], paras = []\<rparr>"

definition detail_url :: "string \<Rightarrow> string" where
  "detail_url i = ''https://www.patc.net/PATC/Calendar/PATC/Custom/calendar.aspx?id='' @ i"

definition sample_site :: "string \<Rightarrow> py_exn + soup" where
  "sample_site =
     site (calendar_of [''1'', ''2'', ''3''])
       [(detail_url ''1'', hike_page), (detail_url ''2'', faulty_page), (detail_url ''3'', trail_page)]"

definition undated_site :: "string \<Rightarrow> py_exn + soup" where
  "undated_site =
     site (calendar_of [''2'', ''4''])
       [(detail_url ''2'', faulty_page), (detail_url ''4'', undated_page)]"

definition ambiguous_site :: "string \<Rightarrow> py_exn + soup" where
  "ambiguous_site =
     site (calendar_of [''1'', ''5''])
       [(detail_url ''1'', hike_page), (detail_url ''5'', ambiguous_page)]"

text \<open>
  A stand-in for \<open>dateutil.parser.parse\<close> on the sample pages: it reads the timestamps of
  the shape \<open>YYYY-MM-DDTHH:MM:SS\<close> and raises ParserError on everything else.
\<close>

definition iso_parse :: "string \<Rightarrow> py_exn + datetime" where
  "iso_parse s =
     (if valid_timestamp s then
        (case strptime s of Inl e \<Rightarrow> Inl ParserError | Inr d \<Rightarrow> Inr d)
      else Inl ParserError)"

text \<open>The frame that \<open>main\<close> returns for \<open>sample_site\<close>.\<close>

definition sample_frame :: frame where
  "sample_frame =
     \<lparr>n_rows = 2,
      columns =
        [(''Event Name'', [PyStr ''Hike at Sugarloaf'', PyStr ''Trail work'']),
         (''Event Description'', [PyStr ''A long hike.'', PyStr ''Bring gloves.'']),
         (''Event Website'', [PyStr ''https://www.patc.net/hike'', NaN]),
         (''All Day Event'', [PyBool False, PyBool False]),
         (''Timezone'', [PyStr ''America/New_York'', PyStr ''America/New_York'']),
         (''Event End Time'', [PyStr ''23:59:59'', PyStr ''23:59:59'']),
         (''Event Cost'', [PyInt 0, PyInt 0]),
         (''Event Currency Symbol'', [PyStr ''$'', PyStr ''$'']),
         (''Event Venue Name'', [PyStr ''Please refer to website'', PyStr ''Please refer to website'']),
         (''Event Organizers'',
          [PyStr ''Potomac Appalachian Trail Club'', PyStr ''Potomac Appalachian Trail Club'']),
         (''Event Start Date'', [PyDate 2019 6 1, PyDate 2019 6 8]),
         (''Event Start Time'', [PyStr ''09:00:00'', PyStr ''08:30:00'']),
         (''Event End Date'', [PyDate 2019 6 1, PyDate 2019 6 8])]\<rparr>"

text \<open>
  The links that the loop of \<open>main\<close> follows, in order; a page on which \<open>find_event_data\<close>
  meets the IndexError; and a record with a start date and a start time that \<open>parse\<close> reads.
\<close>

definition detail_links :: "string option list \<Rightarrow> string list" where
  "detail_links hrefs =
     map (\<lambda>event_link. posixpath_join ''Custom'' (posixpath_split_tail event_link))
       (filter (py_in ''calendar.aspx'') (map (\<lambda>href. case href of None \<Rightarrow> [] | Some l \<Rightarrow> l) hrefs))"

definition malformed :: "soup \<Rightarrow> bool" where
  "malformed res = (th_texts res = [] \<or> paras res = [])"

definition reads :: "(string \<Rightarrow> py_exn + datetime) \<Rightarrow> string option \<Rightarrow> bool" where
  "reads parse field =
     (case field of
        None \<Rightarrow> False
      | Some s \<Rightarrow> (case parse s of Inl e \<Rightarrow> False | Inr d \<Rightarrow> True))"

definition dated :: "(string \<Rightarrow> py_exn + datetime) \<Rightarrow> (string \<times> string) list \<Rightarrow> bool" where
  "dated parse r = (reads parse (map_of r ''Start Date'') \<and> reads parse (map_of r ''Start Time''))"

definition faulty_site :: "string \<Rightarrow> py_exn + soup" where
  "faulty_site = site (calendar_of [''2'']) [(detail_url ''2'', faulty_page)]"

section \<open>Properties of the paginated fetch\<close>

lemma fetch_loop_raises:
  "0 < f \<Longrightarrow> f \<le> k \<Longrightarrow> k < count \<Longrightarrow> 5 dvd (k - f) \<Longrightarrow>
   (\<forall>j. f \<le> j \<and> j < k \<and> 5 dvd (j - f) \<longrightarrow> is_payload (api j)) \<Longrightarrow>
   api k = Request_raises e \<Longrightarrow>
   fetch_loop api count d f ev reqs = (rs, out) \<Longrightarrow> out = Raises e \<and> last rs = k"
proof (induction api count d f ev reqs rule: fetch_loop.induct)
  case (1 api count d f ev reqs)
  show ?case
  proof (cases "f = k")
    case True
    with "1.prems" show ?thesis
      by (auto simp add: fetch_loop.simps [of api count d k])
  next
    case False
    with "1.prems" have lt: "f < k" by simp
    from lt "1.prems"(4) have step: "f + 5 \<le> k" by presburger
    from "1.prems" lt have "is_payload (api f)" by simp
    then obtain c its where pf: "api f = Payload c its"
      by (cases "api f") auto
    have dv: "5 dvd (k - (f + 5))" using "1.prems"(4) by presburger
    have later: "\<forall>j. f + 5 \<le> j \<and> j < k \<and> 5 dvd (j - (f + 5)) \<longrightarrow> is_payload (api j)"
    proof (intro allI impI)
      fix j assume a: "f + 5 \<le> j \<and> j < k \<and> 5 dvd (j - (f + 5))"
      then have "5 dvd (j - f)" by presburger
      with a "1.prems"(5) show "is_payload (api j)" by simp
    qed
    have run: "fetch_loop api count its (f + 5) (ev @ its) (reqs @ [f]) = (rs, out)"
      using "1.prems" lt pf by (simp add: fetch_loop.simps [of api count d f])
    have "0 < f + 5" using "1.prems"(1) by simp
    from "1.IH"(2) [OF _ _ pf this step "1.prems"(3) dv later "1.prems"(6) run]
      "1.prems" lt
    show ?thesis by simp
  qed
qed

text \<open>
  C3. When the first GET raises, the exception is caught and logged as critical and the
  function returns \<open>None\<close>. When the first response is read and a later GET, at offset \<open>k\<close>,
  is the first one to raise, the exception leaves the function.
\<close>

theorem first_request_caught_later_propagate:
  "(api 0 = Request_raises e \<longrightarrow>
      outcome (get_arlington_events api) = Returns_None \<and>
      logged (get_arlington_events api) = [Critical e] \<and>
      requested (get_arlington_events api) = [0]) \<and>
   (api 0 = Payload count its \<and> 0 < k \<and> k < count \<and> 5 dvd k \<and>
    (\<forall>j. 0 < j \<and> j < k \<and> 5 dvd j \<longrightarrow> is_payload (api j)) \<and>
    api k = Request_raises e \<longrightarrow>
      outcome (get_arlington_events api) = Raises e \<and>
      logged (get_arlington_events api) = [] \<and>
      last (requested (get_arlington_events api)) = k)"
proof (intro conjI impI)
  assume "api 0 = Request_raises e"
  then show "outcome (get_arlington_events api) = Returns_None"
    and "logged (get_arlington_events api) = [Critical e]"
    and "requested (get_arlington_events api) = [0]"
    by (simp_all add: get_arlington_events_def)
next
  assume a: "api 0 = Payload count its \<and> 0 < k \<and> k < count \<and> 5 dvd k \<and>
    (\<forall>j. 0 < j \<and> j < k \<and> 5 dvd j \<longrightarrow> is_payload (api j)) \<and> api k = Request_raises e"
  obtain rs out where run: "fetch_loop api count its 0 [] [0] = (rs, out)"
    by (cases "fetch_loop api count its 0 [] [0]")
  from a have first: "fetch_loop api count its 5 its [0] = (rs, out)"
    using run by (simp add: fetch_loop.simps [of api count its 0])
  from a have kpos: "0 < k" and kdvd: "5 dvd k" by simp_all
  from kpos kdvd have k5: "5 \<le> k" by presburger
  from kdvd have dv: "5 dvd (k - 5)" by presburger
  have later: "\<forall>j. 5 \<le> j \<and> j < k \<and> 5 dvd (j - 5) \<longrightarrow> is_payload (api j)"
  proof (intro allI impI)
    fix j assume b: "5 \<le> j \<and> j < k \<and> 5 dvd (j - 5)"
    then have "5 dvd j" by presburger
    with a b show "is_payload (api j)" by simp
  qed
  have res: "out = Raises e \<and> last rs = k"
    using fetch_loop_raises [OF _ k5 _ dv later _ first] a by simp
  show "outcome (get_arlington_events api) = Raises e"
    and "logged (get_arlington_events api) = []"
    and "last (requested (get_arlington_events api)) = k"
    using a run res by (simp_all add: get_arlington_events_def)
qed

theorem first_request_caught_later_propagate_witness:
  "unreachable_api 0 = Request_raises RequestException \<and>
   outcome (get_arlington_events unreachable_api) = Returns_None \<and>
   logged (get_arlington_events unreachable_api) = [Critical RequestException] \<and>
   breaks_at_10_api 0 = Payload 12 [0] \<and> (0::int) < 10 \<and> (10::int) < 12 \<and> (5::int) dvd 10 \<and>
   is_payload (breaks_at_10_api 5) \<and>
   breaks_at_10_api 10 = Request_raises RequestException \<and>
   outcome (get_arlington_events breaks_at_10_api) = Raises RequestException \<and>
   last (requested (get_arlington_events breaks_at_10_api)) = 10"
proof -
  have earlier: "\<forall>j. 0 < j \<and> j < 10 \<and> 5 dvd j \<longrightarrow> is_payload (breaks_at_10_api j)"
    by (simp add: breaks_at_10_api_def)
  show ?thesis
    using earlier
      first_request_caught_later_propagate
        [of unreachable_api RequestException 12 "[0]" 10]
      first_request_caught_later_propagate
        [of breaks_at_10_api RequestException 12 "[0]" 10]
    by (simp add: unreachable_api_def breaks_at_10_api_def)
qed

lemma offsets_from_stop: "\<not> f < count \<Longrightarrow> offsets_from f count = []"
  by (simp add: offsets_from_def)

lemma offsets_from_step:
  assumes "f < count"
  shows "offsets_from f count = f # offsets_from (f + 5) count"
proof -
  have a: "0 \<le> count - (f + 5) + 4" using assms by simp
  have "(count - f + 4) div 5 = (count - (f + 5) + 4) div 5 + 1"
    by (simp add: algebra_simps)
  moreover have "0 \<le> (count - (f + 5) + 4) div 5"
    using a by (simp add: pos_imp_zdiv_nonneg_iff)
  ultimately have n: "nat ((count - f + 4) div 5) = Suc (nat ((count - (f + 5) + 4) div 5))"
    by (simp add: Suc_nat_eq_nat_zadd1)
  have "map (\<lambda>i. f + 5 * int i) [0..<Suc (nat ((count - (f + 5) + 4) div 5))]
        = f # map (\<lambda>i. f + 5 + 5 * int i) [0..<nat ((count - (f + 5) + 4) div 5)]"
    by (simp add: upt_conv_Cons map_Suc_upt [symmetric] del: upt_Suc) 
  then show ?thesis by (simp add: offsets_from_def n)
qed

lemma page_offsets_from: "page_offsets count = offsets_from 0 count"
  by (simp add: page_offsets_def offsets_from_def)

lemma fetch_loop_pages:
  "0 < f \<Longrightarrow>
   (\<forall>j. f \<le> j \<and> j < count \<and> 5 dvd (j - f) \<longrightarrow> is_payload (api j)) \<Longrightarrow>
   fetch_loop api count d f ev reqs =
     (reqs @ offsets_from f count,
      Returns (ev @ concat (map (\<lambda>k. items_of (api k)) (offsets_from f count))))"
proof (induction api count d f ev reqs rule: fetch_loop.induct)
  case (1 api count d f ev reqs)
  show ?case
  proof (cases "f < count")
    case False
    then show ?thesis
      by (simp add: fetch_loop.simps [of api count d f] offsets_from_stop)
  next
    case True
    with "1.prems" have "is_payload (api f)" by simp
    then obtain c its where pf: "api f = Payload c its"
      by (cases "api f") auto
    have later: "\<forall>j. f + 5 \<le> j \<and> j < count \<and> 5 dvd (j - (f + 5)) \<longrightarrow> is_payload (api j)"
    proof (intro allI impI)
      fix j assume a: "f + 5 \<le> j \<and> j < count \<and> 5 dvd (j - (f + 5))"
      then have "5 dvd (j - f)" by presburger
      with a "1.prems"(2) show "is_payload (api j)" by simp
    qed
    have pos: "0 < f + 5" using "1.prems"(1) by simp
    have nz: "f \<noteq> 0" using "1.prems"(1) by simp
    show ?thesis
      using "1.IH"(2) [OF True nz pf pos later] True nz pf
      by (simp add: fetch_loop.simps [of api count d f] offsets_from_step [OF True])
  qed
qed

text \<open>
  C1. When the first response reports \<open>count\<close>, every later page is served, and a response
  that reports a count of 0 or less carries no items: the GETs are issued at the offsets
  \<open>0, 5, 10, ...\<close>, the first at offset 0 and the others as long as the offset is below
  \<open>count\<close>; nothing is logged; and the result is the items of all the responses, concatenated
  in request order. For \<open>count = 12\<close> the offsets are exactly 0, 5, 10.
\<close>

theorem paginated_fetch_pages:
  assumes first: "api 0 = Payload count its"
    and rest: "\<forall>j. 0 < j \<and> j < count \<and> 5 dvd j \<longrightarrow> is_payload (api j)"
    and consistent: "count \<le> 0 \<longrightarrow> its = []"
  shows "requested (get_arlington_events api) = 0 # offsets_from 5 count \<and>
         (0 < count \<longrightarrow> requested (get_arlington_events api) = page_offsets count) \<and>
         logged (get_arlington_events api) = [] \<and>
         outcome (get_arlington_events api) =
           Returns (concat (map (\<lambda>k. items_of (api k)) (requested (get_arlington_events api)))) \<and>
         (count = 12 \<longrightarrow> requested (get_arlington_events api) = [0, 5, 10])"
proof -
  have later: "\<forall>j. 5 \<le> j \<and> j < count \<and> 5 dvd (j - 5) \<longrightarrow> is_payload (api j)"
  proof (intro allI impI)
    fix j :: int assume b: "5 \<le> j \<and> j < count \<and> 5 dvd (j - 5)"
    then have "5 dvd j" by presburger
    with b rest show "is_payload (api j)" by simp
  qed
  have loop5: "fetch_loop api count its 5 its [0] =
      ([0] @ offsets_from 5 count,
       Returns (its @ concat (map (\<lambda>k. items_of (api k)) (offsets_from 5 count))))"
    using fetch_loop_pages [of 5 count api its its "[0]"] later by simp
  have pos: "0 < count \<Longrightarrow> fetch_loop api count its 0 [] [0] =
      (0 # offsets_from 5 count,
       Returns (its @ concat (map (\<lambda>k. items_of (api k)) (offsets_from 5 count))))"
    using loop5 by (simp add: fetch_loop.simps [of api count its 0])
  have neg0: "count \<le> 0 \<Longrightarrow> fetch_loop api count its 0 [] [0] = ([0], Returns [])"
    by (simp add: fetch_loop.simps [of api count its 0])
  have neg: "count \<le> 0 \<Longrightarrow> fetch_loop api count its 0 [] [0] =
      (0 # offsets_from 5 count,
       Returns (its @ concat (map (\<lambda>k. items_of (api k)) (offsets_from 5 count))))"
    using neg0 consistent by (simp add: offsets_from_stop)
  have loop: "fetch_loop api count its 0 [] [0] =
      (0 # offsets_from 5 count,
       Returns (its @ concat (map (\<lambda>k. items_of (api k)) (offsets_from 5 count))))"
    using pos neg by (cases "0 < count") simp_all
  have po: "0 < count \<Longrightarrow> page_offsets count = 0 # offsets_from 5 count"
    by (simp add: page_offsets_from offsets_from_step)
  have twelve: "page_offsets 12 = [0, 5, 10]"
    by (simp add: page_offsets_def upt_conv_Cons)
  have run: "get_arlington_events api =
      \<lparr>requested = 0 # offsets_from 5 count, logged = [],
       outcome = Returns (its @ concat (map (\<lambda>k. items_of (api k)) (offsets_from 5 count)))\<rparr>"
    by (simp add: get_arlington_events_def first loop)
  show ?thesis
    using po twelve by (auto simp add: run first)
qed

theorem paginated_fetch_pages_witness:
  "twelve_api 0 = Payload 12 [0, 1] \<and> is_payload (twelve_api 5) \<and> is_payload (twelve_api 10) \<and>
   requested (get_arlington_events twelve_api) = [0, 5, 10] \<and>
   logged (get_arlington_events twelve_api) = [] \<and>
   outcome (get_arlington_events twelve_api) = Returns [0, 1, 5, 6, 10, 11] \<and>
   zero_count_api 0 = Payload 0 [] \<and>
   requested (get_arlington_events zero_count_api) = [0] \<and>
   outcome (get_arlington_events zero_count_api) = Returns []"
proof -
  have zfirst: "zero_count_api 0 = Payload 0 []" by (simp add: zero_count_api_def)
  have zrest: "\<forall>j. 0 < j \<and> j < 0 \<and> 5 dvd j \<longrightarrow> is_payload (zero_count_api j)"
    by (simp add: zero_count_api_def)
  have zc: "(0::int) \<le> 0 \<longrightarrow> ([]::nat list) = []" by simp
  have rest: "\<forall>j. 0 < j \<and> j < 12 \<and> 5 dvd j \<longrightarrow> is_payload (twelve_api j)"
    by (simp add: twelve_api_def)
  have first: "twelve_api 0 = Payload 12 [0, 1]" by (simp add: twelve_api_def)
  have tc: "(12::int) \<le> 0 \<longrightarrow> [0, 1::nat] = []" by simp
  have o12: "offsets_from 5 12 = [5, 10]" by (simp add: offsets_from_def upt_conv_Cons)
  have o0: "offsets_from 5 0 = []" by (simp add: offsets_from_def)
  have p5: "is_payload (twelve_api 5)" and p10: "is_payload (twelve_api 10)"
    and i0: "items_of (twelve_api 0) = [0, 1]"
    and i5: "items_of (twelve_api 5) = [5, 6]" and i10: "items_of (twelve_api 10) = [10, 11]"
    and z0: "items_of (zero_count_api 0) = []"
    by (simp_all add: twelve_api_def zero_count_api_def)
  show ?thesis
    using paginated_fetch_pages [OF first rest tc] paginated_fetch_pages [OF zfirst zrest zc]
      o12 o0 first zfirst p5 p10 i0 i5 i10 z0
    by simp
qed

section \<open>Properties of date normalisation\<close>

lemma is_dec_cases:
  "is_dec c \<longleftrightarrow> c = CHR ''0'' \<or> c = CHR ''1'' \<or> c = CHR ''2'' \<or> c = CHR ''3'' \<or> c = CHR ''4'' \<or>
     c = CHR ''5'' \<or> c = CHR ''6'' \<or> c = CHR ''7'' \<or> c = CHR ''8'' \<or> c = CHR ''9''"
  by (auto simp add: is_dec_def)

lemma digit_val_lt: "is_dec c \<Longrightarrow> digit_val c < 10"
  by (auto simp add: is_dec_cases digit_val_def)

lemma digit_char_val: "is_dec c \<Longrightarrow> digit_char (digit_val c) = c"
  by (auto simp add: is_dec_cases digit_val_def digit_char_def)

lemma is_dec_not_sep:
  "is_dec c \<Longrightarrow> c \<noteq> CHR ''-'' \<and> c \<noteq> CHR ''T'' \<and> c \<noteq> CHR ''t'' \<and> c \<noteq> CHR '':'' \<and> c \<noteq> CHR '' ''"
  by (auto simp add: is_dec_cases)

lemma field_int2: "is_dec a \<Longrightarrow> field_int [a, b] = 10 * digit_val a + digit_val b"
  by (simp add: field_int_def is_dec_not_sep)

lemma field_int4:
  "is_dec a \<Longrightarrow> field_int [a, b, c, d] =
     1000 * digit_val a + 100 * digit_val b + 10 * digit_val c + digit_val d"
  by (simp add: field_int_def is_dec_not_sep)

lemma pad2_digits: "a < 10 \<Longrightarrow> b < 10 \<Longrightarrow> pad2 (10 * a + b) = [digit_char a, digit_char b]"
  by (simp add: pad2_def)

lemma dec_split:
  fixes q r :: nat
  assumes "r < 10"
  shows "(10 * q + r) div 10 = q" and "(10 * q + r) mod 10 = r"
  using assms by simp_all

lemma pad2_field: "is_dec a \<Longrightarrow> is_dec b \<Longrightarrow> pad2 (field_int [a, b]) = [a, b]"
  by (simp add: field_int2 pad2_digits digit_val_lt digit_char_val)

lemma digit_is:
  assumes "is_dec c"
  shows "(c = CHR ''0'') = (digit_val c = 0)" and "(c = CHR ''1'') = (digit_val c = 1)"
    and "(c = CHR ''2'') = (digit_val c = 2)" and "(c = CHR ''3'') = (digit_val c = 3)"
    and "(c = CHR ''6'') = (digit_val c = 6)"
  using assms unfolding is_dec_cases by (elim disjE; simp add: digit_val_def)+

lemma digit_in:
  assumes "is_dec c"
  shows "one_of ''01'' c = (digit_val c \<le> 1)"
    and "one_of ''012'' c = (digit_val c \<le> 2)"
    and "one_of ''0123'' c = (digit_val c \<le> 3)"
    and "one_of ''012345'' c = (digit_val c \<le> 5)"
    and "one_of ''12'' c = (1 \<le> digit_val c \<and> digit_val c \<le> 2)"
    and "one_of ''123456789'' c = (1 \<le> digit_val c)"
  using assms unfolding is_dec_cases by (elim disjE; simp add: digit_val_def one_of_def)+

lemma days_in_month_le: "days_in_month y m \<le> 31"
  by (simp add: days_in_month_def)

lemma field_int1: "is_dec a \<Longrightarrow> field_int [a] = digit_val a"
  by (simp add: field_int_def is_dec_not_sep)

lemma field_int_space: "is_dec b \<Longrightarrow> field_int [CHR '' '', b] = digit_val b"
  by (simp add: field_int_def is_dec_not_sep)

lemma one_of_dec: "one_of cs c \<Longrightarrow> list_all is_dec cs \<Longrightarrow> is_dec c"
  by (simp add: one_of_def list_all_iff)

lemma digit_classes:
  "list_all is_dec ''01''" "list_all is_dec ''012''" "list_all is_dec ''0123''"
  "list_all is_dec ''012345''" "list_all is_dec ''12''" "list_all is_dec ''123456789''"
  "is_dec CHR ''0''" "is_dec CHR ''1''" "is_dec CHR ''2''" "is_dec CHR ''3''" "is_dec CHR ''6''"
  by (simp_all add: is_dec_def)

lemma digits12_single: "digits12 [a] = is_dec a"
  by (simp add: digits12_def)

lemma digits12_pair: "digits12 [a, b] = (is_dec a \<and> is_dec b)"
  by (simp add: digits12_def)

lemma digits12_other: "digits12 [] = False" "digits12 (a # b # c # r) = False"
  by (simp_all add: digits12_def)

lemma re_m_dec: "re_m [a, b] \<Longrightarrow> is_dec a \<and> is_dec b"
  using digit_classes one_of_dec by auto

lemma re_d_dec: "re_d [a, b] \<Longrightarrow> (is_dec a \<or> a = CHR '' '') \<and> is_dec b"
  using digit_classes one_of_dec by auto

lemma re_H_dec: "re_H [a, b] \<Longrightarrow> is_dec a \<and> is_dec b"
  using digit_classes one_of_dec by auto

lemma re_M_dec: "re_M [a, b] \<Longrightarrow> is_dec a \<and> is_dec b"
  using digit_classes one_of_dec by auto

lemma re_S_dec: "re_S [a, b] \<Longrightarrow> is_dec a \<and> is_dec b"
  using digit_classes one_of_dec by auto

lemma re_m_iff: "re_m f = (digits12 f \<and> 1 \<le> field_int f \<and> field_int f \<le> 12)"
proof (cases f rule: re_m.cases)
  case (1 a b)
  show ?thesis
  proof (cases "is_dec a \<and> is_dec b")
    case True
    then have da: "is_dec a" and db: "is_dec b" by simp_all
    have l: "re_m [a, b] = ((digit_val a = 1 \<and> digit_val b \<le> 2) \<or> (digit_val a = 0 \<and> 1 \<le> digit_val b))"
      using da db by (simp add: digit_is digit_in)
    have r: "(digits12 [a, b] \<and> 1 \<le> field_int [a, b] \<and> field_int [a, b] \<le> 12) =
        (1 \<le> 10 * digit_val a + digit_val b \<and> 10 * digit_val a + digit_val b \<le> 12)"
      using da db by (simp add: digits12_pair field_int2)
    have "digit_val a < 10" "digit_val b < 10" using da db by (simp_all add: digit_val_lt)
    then show ?thesis unfolding 1 l r by arith
  next
    case False
    with re_m_dec [of a b] show ?thesis unfolding 1 by (auto simp add: digits12_pair)
  qed
next
  case (2 a)
  show ?thesis
  proof (cases "is_dec a")
    case True
    then show ?thesis unfolding 2 using digit_val_lt [OF True]
      by (simp add: digits12_single field_int1 digit_in)
  next
    case False
    with one_of_dec [of "''123456789''" a] digit_classes(6) show ?thesis
      unfolding 2 by (auto simp add: digits12_single)
  qed
qed (simp_all add: digits12_other)

lemma re_H_iff: "re_H f = (digits12 f \<and> field_int f \<le> 23)"
proof (cases f rule: re_H.cases)
  case (1 a b)
  show ?thesis
  proof (cases "is_dec a \<and> is_dec b")
    case True
    then have da: "is_dec a" and db: "is_dec b" by simp_all
    have l: "re_H [a, b] = ((digit_val a = 2 \<and> digit_val b \<le> 3) \<or> digit_val a \<le> 1)"
      using da db by (simp add: digit_is digit_in)
    have r: "(digits12 [a, b] \<and> field_int [a, b] \<le> 23) = (10 * digit_val a + digit_val b \<le> 23)"
      using da db by (simp add: digits12_pair field_int2)
    have "digit_val a < 10" "digit_val b < 10" using da db by (simp_all add: digit_val_lt)
    then show ?thesis unfolding 1 l r by arith
  next
    case False
    with re_H_dec [of a b] show ?thesis unfolding 1 by (auto simp add: digits12_pair)
  qed
next
  case (2 a)
  show ?thesis
  proof (cases "is_dec a")
    case True
    then show ?thesis unfolding 2 using digit_val_lt [OF True]
      by (simp add: digits12_single field_int1)
  next
    case False
    then show ?thesis unfolding 2 by (simp add: digits12_single)
  qed
qed (simp_all add: digits12_other)

lemma re_M_iff: "re_M f = (digits12 f \<and> field_int f \<le> 59)"
proof (cases f rule: re_M.cases)
  case (1 a b)
  show ?thesis
  proof (cases "is_dec a \<and> is_dec b")
    case True
    then have da: "is_dec a" and db: "is_dec b" by simp_all
    have l: "re_M [a, b] = (digit_val a \<le> 5)"
      using da db by (simp add: digit_in)
    have r: "(digits12 [a, b] \<and> field_int [a, b] \<le> 59) = (10 * digit_val a + digit_val b \<le> 59)"
      using da db by (simp add: digits12_pair field_int2)
    have "digit_val a < 10" "digit_val b < 10" using da db by (simp_all add: digit_val_lt)
    then show ?thesis unfolding 1 l r by arith
  next
    case False
    with re_M_dec [of a b] show ?thesis unfolding 1 by (auto simp add: digits12_pair)
  qed
next
  case (2 a)
  show ?thesis
  proof (cases "is_dec a")
    case True
    then show ?thesis unfolding 2 using digit_val_lt [OF True]
      by (simp add: digits12_single field_int1)
  next
    case False
    then show ?thesis unfolding 2 by (simp add: digits12_single)
  qed
qed (simp_all add: digits12_other)

lemma re_S_iff: "(re_S f \<and> field_int f \<le> 59) = (digits12 f \<and> field_int f \<le> 59)"
proof (cases f rule: re_S.cases)
  case (1 a b)
  show ?thesis
  proof (cases "is_dec a \<and> is_dec b")
    case True
    then have da: "is_dec a" and db: "is_dec b" by simp_all
    have l: "re_S [a, b] = ((digit_val a = 6 \<and> digit_val b \<le> 1) \<or> digit_val a \<le> 5)"
      using da db by (simp add: digit_is digit_in)
    have r: "digits12 [a, b] = True" "field_int [a, b] = 10 * digit_val a + digit_val b"
      using da db by (simp_all add: digits12_pair field_int2)
    have "digit_val a < 10" "digit_val b < 10" using da db by (simp_all add: digit_val_lt)
    then show ?thesis unfolding 1 l r by arith
  next
    case False
    with re_S_dec [of a b] show ?thesis unfolding 1 by (auto simp add: digits12_pair)
  qed
next
  case (2 a)
  show ?thesis
  proof (cases "is_dec a")
    case True
    then show ?thesis unfolding 2 by (simp add: digits12_single)
  next
    case False
    then show ?thesis unfolding 2 by (simp add: digits12_single)
  qed
qed (simp_all add: digits12_other)

lemma day_text_pair: "day_text [a, b] = ((is_dec a \<or> a = CHR '' '') \<and> is_dec b)"
  by (auto simp add: day_text_def digits12_pair)

lemma day_text_single: "day_text [a] = is_dec a"
  by (simp add: day_text_def digits12_single)

lemma day_text_other: "day_text [] = False" "day_text (a # b # c # r) = False"
  by (simp_all add: day_text_def digits12_other)

lemma re_d_iff: "re_d f = (day_text f \<and> 1 \<le> field_int f \<and> field_int f \<le> 31)"
proof (cases f rule: re_d.cases)
  case (1 a b)
  show ?thesis
  proof (cases "is_dec b")
    case db: True
    show ?thesis
    proof (cases "is_dec a")
      case da: True
      then have ns: "a \<noteq> CHR '' ''" by (simp add: is_dec_not_sep)
      have l: "re_d [a, b] = ((digit_val a = 3 \<and> digit_val b \<le> 1) \<or>
          (1 \<le> digit_val a \<and> digit_val a \<le> 2) \<or> (digit_val a = 0 \<and> 1 \<le> digit_val b))"
        using da db ns by (simp add: digit_is digit_in)
      have r: "(day_text [a, b] \<and> 1 \<le> field_int [a, b] \<and> field_int [a, b] \<le> 31) =
          (1 \<le> 10 * digit_val a + digit_val b \<and> 10 * digit_val a + digit_val b \<le> 31)"
        using da db by (simp add: day_text_pair field_int2)
      have "digit_val a < 10" "digit_val b < 10" using da db by (simp_all add: digit_val_lt)
      then show ?thesis unfolding 1 l r by arith
    next
      case False
      show ?thesis
      proof (cases "a = CHR '' ''")
        case True
        have n: "CHR '' '' \<noteq> CHR ''3''" "CHR '' '' \<noteq> CHR ''0''" "\<not> one_of ''12'' CHR '' ''"
          by (simp_all add: one_of_def)
        show ?thesis unfolding 1 True using db digit_val_lt [OF db]
          by (simp add: n day_text_pair field_int_space digit_in)
      next
        case ns: False
        with False re_d_dec [of a b] show ?thesis unfolding 1
          by (auto simp add: day_text_pair)
      qed
    qed
  next
    case False
    with re_d_dec [of a b] show ?thesis unfolding 1 by (auto simp add: day_text_pair)
  qed
next
  case (2 a)
  show ?thesis
  proof (cases "is_dec a")
    case True
    then show ?thesis unfolding 2 using digit_val_lt [OF True]
      by (simp add: day_text_single field_int1 digit_in)
  next
    case False
    with one_of_dec [of "''123456789''" a] digit_classes(6) show ?thesis
      unfolding 2 by (auto simp add: day_text_single)
  qed
qed (simp_all add: day_text_other)

lemma decimal_digit: "r < 10 \<Longrightarrow> decimal r = [digit_char r]"
  by (simp add: decimal.simps [of r])

lemma decimal_step:
  assumes "0 < q" "r < 10"
  shows "decimal (10 * q + r) = decimal q @ [digit_char r]"
proof -
  have "\<not> 10 * q + r < 10" using assms(1) by simp
  moreover have "(10 * q + r) div 10 = q" "(10 * q + r) mod 10 = r"
    using dec_split [OF assms(2)] by simp_all
  ultimately show ?thesis by (simp add: decimal.simps [of "10 * q + r"])
qed

lemma decimal_field:
  assumes "is_dec a" "is_dec b" "is_dec c" "is_dec d" "a \<noteq> CHR ''0''"
  shows "decimal (field_int [a, b, c, d]) = [a, b, c, d]"
proof -
  define n1 where "n1 = 10 * digit_val a + digit_val b"
  define n2 where "n2 = 10 * n1 + digit_val c"
  define n where "n = 10 * n2 + digit_val d"
  have lt: "digit_val a < 10" "digit_val b < 10" "digit_val c < 10" "digit_val d < 10"
    using assms by (simp_all add: digit_val_lt)
  have pa: "0 < digit_val a" using assms(1,5) by (simp add: digit_is(1))
  then have p1: "0 < n1" and p2: "0 < n2" by (simp_all add: n1_def n2_def)
  have e: "field_int [a, b, c, d] = n"
    using assms(1) by (simp add: field_int4 n_def n2_def n1_def)
  have "decimal n = decimal n2 @ [digit_char (digit_val d)]"
    unfolding n_def using p2 lt(4) by (rule decimal_step)
  also have "decimal n2 = decimal n1 @ [digit_char (digit_val c)]"
    unfolding n2_def using p1 lt(3) by (rule decimal_step)
  also have "decimal n1 = decimal (digit_val a) @ [digit_char (digit_val b)]"
    unfolding n1_def using pa lt(2) by (rule decimal_step)
  also have "decimal (digit_val a) = [digit_char (digit_val a)]"
    using lt(1) by (rule decimal_digit)
  finally show ?thesis using assms by (simp add: e digit_char_val)
qed

lemma decimal_not_Nil: "decimal n \<noteq> []"
  by (simp add: decimal.simps [of n])

lemma cut_append:
  assumes "\<forall>c\<in>set a. \<not> is_sep c" and "is_sep x"
  shows "cut is_sep (a @ x # rest) = Some (a, rest)"
proof -
  have "dropWhile (\<lambda>c. \<not> is_sep c) (a @ x # rest) = x # rest"
    using assms by (simp add: dropWhile_append2)
  moreover have "takeWhile (\<lambda>c. \<not> is_sep c) (a @ x # rest) = a"
    using assms by (simp add: takeWhile_append2)
  ultimately show ?thesis by (simp add: cut_def)
qed

lemma cut_split:
  assumes "cut is_sep s = Some (a, b)"
  shows "\<exists>x. is_sep x \<and> s = a @ x # b"
proof -
  from assms obtain x where d: "dropWhile (\<lambda>c. \<not> is_sep c) s = x # b"
    and a: "a = takeWhile (\<lambda>c. \<not> is_sep c) s"
    by (auto simp add: cut_def split: list.splits)
  have "\<not> \<not> is_sep (hd (dropWhile (\<lambda>c. \<not> is_sep c) s))"
    using d hd_dropWhile [of "\<lambda>c. \<not> is_sep c" s] by simp
  then have x: "is_sep x" by (simp add: d)
  have "s = takeWhile (\<lambda>c. \<not> is_sep c) s @ dropWhile (\<lambda>c. \<not> is_sep c) s" by simp
  then have "s = a @ x # b" unfolding d a .
  with x show ?thesis by blast
qed

lemma digits12_no_sep:
  assumes "digits12 f" and "c \<in> set f"
  shows "c \<noteq> CHR ''-'' \<and> c \<noteq> CHR ''T'' \<and> c \<noteq> CHR ''t'' \<and> c \<noteq> CHR '':''"
proof -
  from assms have "is_dec c" by (simp add: digits12_def list_all_iff)
  then show ?thesis by (simp add: is_dec_not_sep)
qed

lemma day_text_no_sep:
  assumes "day_text f" and "c \<in> set f"
  shows "c \<noteq> CHR ''T'' \<and> c \<noteq> CHR ''t''"
proof (cases "digits12 f")
  case True
  with assms(2) digits12_no_sep show ?thesis by blast
next
  case False
  with assms(1) have l: "length f = 2" and h: "hd f = CHR '' ''" and d: "is_dec (last f)"
    by (simp_all add: day_text_def)
  from l obtain a b where f: "f = [a, b]"
    by (cases f; cases "tl f") auto
  with h d assms(2) is_dec_not_sep [of b] show ?thesis by auto
qed

lemma strptime_join:
  assumes tf: "timestamp_fields Y m d t H M S"
  shows "strptime (join_fields Y m d t H M S) =
    Inr \<lparr>dt_year = field_int Y, dt_month = field_int m, dt_day = field_int d,
         dt_hour = field_int H, dt_minute = field_int M, dt_second = field_int S\<rparr>"
proof -
  let ?s = "join_fields Y m d t H M S"
  from tf have Y: "length Y = 4" "list_all is_dec Y" "1 \<le> field_int Y"
    and m: "digits12 m" "1 \<le> field_int m" "field_int m \<le> 12"
    and d: "day_text d" "1 \<le> field_int d" "field_int d \<le> days_in_month (field_int Y) (field_int m)"
    and t: "t = CHR ''T'' \<or> t = CHR ''t''"
    and H: "digits12 H" "field_int H \<le> 23"
    and M: "digits12 M" "field_int M \<le> 59"
    and S: "digits12 S" "field_int S \<le> 59"
    by (simp_all add: timestamp_fields_def)
  have t4: "take 4 ?s = Y" and n4: "?s ! 4 = CHR ''-''" and l5: "5 \<le> length ?s"
    and d5: "drop 5 ?s = m @ CHR ''-'' # (d @ t # (H @ CHR '':'' # (M @ CHR '':'' # S)))"
    using Y(1) by (simp_all add: join_fields_def nth_append)
  have c1: "cut (\<lambda>c. c = CHR ''-'') (drop 5 ?s) =
      Some (m, d @ t # (H @ CHR '':'' # (M @ CHR '':'' # S)))"
    unfolding d5 using digits12_no_sep [OF m(1)] by (intro cut_append) auto
  have c2: "cut (\<lambda>c. c = CHR ''T'' \<or> c = CHR ''t'') (d @ t # (H @ CHR '':'' # (M @ CHR '':'' # S))) =
      Some (d, H @ CHR '':'' # (M @ CHR '':'' # S))"
    using day_text_no_sep [OF d(1)] t by (intro cut_append) auto
  have c3: "cut (\<lambda>c. c = CHR '':'') (H @ CHR '':'' # (M @ CHR '':'' # S)) =
      Some (H, M @ CHR '':'' # S)"
    using digits12_no_sep [OF H(1)] by (intro cut_append) auto
  have c4: "cut (\<lambda>c. c = CHR '':'') (M @ CHR '':'' # S) = Some (M, S)"
    using digits12_no_sep [OF M(1)] by (intro cut_append) auto
  have d31: "field_int d \<le> 31"
    using d(3) days_in_month_le [of "field_int Y" "field_int m"] by simp
  have rS: "re_S S" using re_S_iff [of S] S by blast
  have re: "re_m m \<and> re_d d \<and> re_H H \<and> re_M M \<and> re_S S"
    using m d(1,2) d31 H M rS by (simp add: re_m_iff re_d_iff re_H_iff re_M_iff)
  have nv: "\<not> (field_int Y = 0 \<or> days_in_month (field_int Y) (field_int m) < field_int d \<or>
      59 < field_int S)"
    using Y(3) d(3) S(2) by simp
  have hd: "5 \<le> length ?s \<and> list_all is_dec (take 4 ?s) \<and> ?s ! 4 = CHR ''-''"
    using l5 n4 Y(2) by (simp add: t4)
  show ?thesis
    unfolding strptime_def using hd re nv by (simp add: c1 c2 c3 c4 t4 Let_def)
qed

lemma strptime_fields:
  assumes "strptime s = Inr dt"
  shows "\<exists>Y m d t H M S. s = join_fields Y m d t H M S \<and> timestamp_fields Y m d t H M S"
proof -
  from assms obtain m r1 d r2 H r3 M S where
    l5: "5 \<le> length s" and y: "list_all is_dec (take 4 s)" and n4: "s ! 4 = CHR ''-''"
    and c: "cut (\<lambda>c. c = CHR ''-'') (drop 5 s) = Some (m, r1)"
      "cut (\<lambda>c. c = CHR ''T'' \<or> c = CHR ''t'') r1 = Some (d, r2)"
      "cut (\<lambda>c. c = CHR '':'') r2 = Some (H, r3)"
      "cut (\<lambda>c. c = CHR '':'') r3 = Some (M, S)"
    and r: "re_m m" "re_d d" "re_H H" "re_M M" "re_S S"
    and v: "field_int (take 4 s) \<noteq> 0"
      "\<not> days_in_month (field_int (take 4 s)) (field_int m) < field_int d"
      "\<not> 59 < field_int S"
    by (auto simp add: strptime_def Let_def split: if_splits option.splits prod.splits)
  from cut_split [OF c(1)] have s1: "drop 5 s = m @ CHR ''-'' # r1" by auto
  from cut_split [OF c(2)] obtain t where t: "t = CHR ''T'' \<or> t = CHR ''t''"
    and s2: "r1 = d @ t # r2" by auto
  from cut_split [OF c(3)] have s3: "r2 = H @ CHR '':'' # r3" by auto
  from cut_split [OF c(4)] have s4: "r3 = M @ CHR '':'' # S" by auto
  have e: "take 4 s @ s ! 4 # drop 5 s = s"
    using id_take_nth_drop [of 4 s, symmetric] l5 by simp
  have "join_fields (take 4 s) m d t H M S = take 4 s @ s ! 4 # drop 5 s"
    by (simp add: join_fields_def n4 s1 s2 s3 s4)
  with e have s: "s = join_fields (take 4 s) m d t H M S" by simp
  have S: "digits12 S \<and> field_int S \<le> 59" using re_S_iff [of S] r(5) v(3) by auto
  have "timestamp_fields (take 4 s) m d t H M S"
    unfolding timestamp_fields_def
    using l5 y v r(1-4) t S by (simp add: re_m_iff re_d_iff re_H_iff re_M_iff)
  with s show ?thesis by blast
qed

lemma join_fields_length:
  assumes "timestamp_fields Y m d t H M S"
  shows "14 \<le> length (join_fields Y m d t H M S) \<and> length (join_fields Y m d t H M S) \<le> 19"
proof -
  from assms have "length Y = 4" "digits12 m" "day_text d" "digits12 H" "digits12 M" "digits12 S"
    by (simp_all add: timestamp_fields_def)
  then have "length Y = 4" "1 \<le> length m \<and> length m \<le> 2" "1 \<le> length d \<and> length d \<le> 2"
    "1 \<le> length H \<and> length H \<le> 2" "1 \<le> length M \<and> length M \<le> 2"
    "1 \<le> length S \<and> length S \<le> 2"
    by (auto simp add: digits12_def day_text_def)
  then show ?thesis by (simp add: join_fields_def)
qed

lemma schematize_date_join:
  assumes "timestamp_fields Y m d t H M S"
  shows "schematize_date (join_fields Y m d t H M S) =
    Inr (decimal (field_int Y) @ ''-'' @ pad2 (field_int m) @ ''-'' @ pad2 (field_int d))"
  by (simp add: schematize_date_def strptime_join [OF assms] strftime_date_def)

lemma strptime_raises_ValueError: "strptime s = Inl e \<Longrightarrow> e = ValueError"
  by (auto simp add: strptime_def Let_def split: if_splits option.splits prod.splits)

lemma schematize_date_other:
  assumes "\<nexists>Y m d t H M S. s = join_fields Y m d t H M S \<and> timestamp_fields Y m d t H M S"
  shows "schematize_date s = Inr []"
proof (cases "strptime s")
  case (Inl e)
  then have "e = ValueError" by (rule strptime_raises_ValueError)
  with Inl show ?thesis by (simp add: schematize_date_def)
next
  case (Inr dt)
  from strptime_fields [OF Inr] assms show ?thesis by blast
qed

lemma schematize_date_exact:
  assumes v: "valid_timestamp s" and y: "hd s \<noteq> CHR ''0''"
  shows "schematize_date s = Inr (take 10 s)"
proof -
  from v have ef: "exact_format s" by (simp add: valid_timestamp_def)
  then obtain y1 y2 y3 y4 m1 m2 d1 d2 h1 h2 n1 n2 s1 s2 where
    s: "s = [y1, y2, y3, y4, CHR ''-'', m1, m2, CHR ''-'', d1, d2, CHR ''T'', h1, h2, CHR '':'',
             n1, n2, CHR '':'', s1, s2]"
    and dg: "is_dec y1" "is_dec y2" "is_dec y3" "is_dec y4" "is_dec m1" "is_dec m2"
      "is_dec d1" "is_dec d2" "is_dec h1" "is_dec h2" "is_dec n1" "is_dec n2"
      "is_dec s1" "is_dec s2"
    by (elim exact_format.elims(2)) simp
  from v have val:
    "1 \<le> field_int [y1, y2, y3, y4]" "1 \<le> field_int [m1, m2]" "field_int [m1, m2] \<le> 12"
    "1 \<le> field_int [d1, d2]"
    "field_int [d1, d2] \<le> days_in_month (field_int [y1, y2, y3, y4]) (field_int [m1, m2])"
    "field_int [h1, h2] \<le> 23" "field_int [n1, n2] \<le> 59" "field_int [s1, s2] \<le> 59"
    by (simp_all add: valid_timestamp_def s Let_def)
  have j: "s = join_fields [y1, y2, y3, y4] [m1, m2] [d1, d2] CHR ''T'' [h1, h2] [n1, n2] [s1, s2]"
    by (simp add: s join_fields_def)
  have tf: "timestamp_fields [y1, y2, y3, y4] [m1, m2] [d1, d2] CHR ''T'' [h1, h2] [n1, n2] [s1, s2]"
    unfolding timestamp_fields_def using dg val
    by (simp add: digits12_pair day_text_pair)
  from y have y0: "y1 \<noteq> CHR ''0''" by (simp add: s)
  have "decimal (field_int [y1, y2, y3, y4]) @ ''-'' @ pad2 (field_int [m1, m2]) @ ''-'' @
      pad2 (field_int [d1, d2]) = take 10 s"
    using dg y0 by (simp add: decimal_field pad2_field s)
  with schematize_date_join [OF tf] j show ?thesis by simp
qed

text \<open>
  C2 (amended). For every string of the exact shape \<open>YYYY-MM-DDTHH:MM:SS\<close> that denotes a
  date and a time of day and whose year does not begin with 0, \<open>schematize_date\<close> returns
  its first ten characters. More generally, for every timestamp made of fields as described
  by \<open>timestamp_fields\<close> it returns the year in decimal without leading zeros, the month
  and the day as two digits, separated by \<open>-\<close>; and for every other string it returns the
  empty string. It never raises.
\<close>

theorem schematize_date_normalizes:
  "(valid_timestamp s \<and> hd s \<noteq> CHR ''0'' \<longrightarrow> schematize_date s = Inr (take 10 s)) \<and>
   (timestamp_fields Y m d t H M S \<longrightarrow>
      schematize_date (join_fields Y m d t H M S) =
        Inr (decimal (field_int Y) @ ''-'' @ pad2 (field_int m) @ ''-'' @ pad2 (field_int d))) \<and>
   ((\<nexists>Y m d t H M S. s = join_fields Y m d t H M S \<and> timestamp_fields Y m d t H M S) \<longrightarrow>
      schematize_date s = Inr [])"
  using schematize_date_exact schematize_date_join schematize_date_other by blast

text \<open>
  C2 as stated fails in both directions: a string that is not in the exact format, with
  fields that lack their leading zero, gives the padded date and not the empty string; a
  string in the exact format with a year below 1000 loses the leading zero of the year; and a
  string in the exact format that names no calendar date gives the empty string.
\<close>

theorem schematize_date_unpadded_counterexample:
  "\<not> exact_format ''2019-1-5T0:0:0'' \<and> schematize_date ''2019-1-5T0:0:0'' = Inr ''2019-01-05'' \<and>
   exact_format ''0999-01-01T00:00:00'' \<and> schematize_date ''0999-01-01T00:00:00'' = Inr ''999-01-01'' \<and>
   exact_format ''2019-02-30T00:00:00'' \<and> schematize_date ''2019-02-30T00:00:00'' = Inr []"
  by code_simp

theorem schematize_date_normalizes_witness:
  "valid_timestamp ''2019-01-25T00:00:00'' \<and>
   schematize_date ''2019-01-25T00:00:00'' = Inr ''2019-01-25'' \<and>
   timestamp_fields ''0999'' ''1'' '' 5'' CHR ''t'' ''0'' ''07'' ''9'' \<and>
   schematize_date ''0999-1- 5t0:07:9'' = Inr ''999-01-05'' \<and>
   schematize_date ''25 Jan 2019'' = Inr []"
proof -
  have v: "valid_timestamp ''2019-01-25T00:00:00'' \<and> hd ''2019-01-25T00:00:00'' \<noteq> CHR ''0''"
    by code_simp
  have f: "timestamp_fields ''0999'' ''1'' '' 5'' CHR ''t'' ''0'' ''07'' ''9''" by code_simp
  have j: "join_fields ''0999'' ''1'' '' 5'' CHR ''t'' ''0'' ''07'' ''9'' = ''0999-1- 5t0:07:9''"
    by code_simp
  have r: "decimal (field_int ''0999'') @ ''-'' @ pad2 (field_int ''1'') @ ''-'' @
      pad2 (field_int '' 5'') = ''999-01-05''"
    by code_simp
  have n: "\<nexists>Y m d t H M S. ''25 Jan 2019'' = join_fields Y m d t H M S \<and>
      timestamp_fields Y m d t H M S"
  proof
    assume "\<exists>Y m d t H M S. ''25 Jan 2019'' = join_fields Y m d t H M S \<and>
      timestamp_fields Y m d t H M S"
    then obtain Y m d t H M S where e: "''25 Jan 2019'' = join_fields Y m d t H M S"
      and tf: "timestamp_fields Y m d t H M S" by blast
    from join_fields_length [OF tf] have "14 \<le> length ''25 Jan 2019''"
      unfolding e by simp
    then show False by simp
  qed
  have t10: "take 10 ''2019-01-25T00:00:00'' = ''2019-01-25''" by simp
  show ?thesis
    using schematize_date_normalizes
        [of "''2019-01-25T00:00:00''" "''0999''" "''1''" "'' 5''" "CHR ''t''" "''0''" "''07''" "''9''"]
      schematize_date_normalizes
        [of "''25 Jan 2019''" "''0999''" "''1''" "'' 5''" "CHR ''t''" "''0''" "''07''" "''9''"]
      v f n
    unfolding j r t10 by blast
qed

section \<open>Properties of the Source A schema mapper\<close>

lemma schematize_date_total: "\<exists>r. schematize_date s = Inr r"
proof (cases "strptime s")
  case (Inl e)
  then have "e = ValueError" by (rule strptime_raises_ValueError)
  with Inl show ?thesis by (simp add: schematize_date_def)
next
  case (Inr d)
  then show ?thesis by (simp add: schematize_date_def)
qed

lemma schematize_event_skips:
  "(schematize_event bs search item = Inr None) = excluded bs item"
proof -
  obtain sd where sd: "schematize_date (eventStartDate item) = Inr sd"
    using schematize_date_total by blast
  obtain ed where ed: "schematize_date (eventEndDate item) = Inr ed"
    using schematize_date_total by blast
  show ?thesis
    by (auto simp add: schematize_event_def excluded_def normalized_name_def
        normalized_venue_def Let_def sd ed split: sum.splits)
qed

lemma schematize_event_emits:
  assumes "schematize_event bs search item = Inr (Some ev)"
  shows "Event_Cost ev = cost_rule item" and "Event_Name ev = normalized_name bs item"
    and "Event_Venue_Name ev = normalized_venue bs item"
proof -
  obtain sd where sd: "schematize_date (eventStartDate item) = Inr sd"
    using schematize_date_total by blast
  obtain ed where ed: "schematize_date (eventEndDate item) = Inr ed"
    using schematize_date_total by blast
  show "Event_Cost ev = cost_rule item"
    using assms
    by (auto simp add: schematize_event_def cost_rule_def truthy_def Let_def sd ed
        split: sum.splits if_splits option.splits)
  show "Event_Name ev = normalized_name bs item"
    using assms
    by (auto simp add: schematize_event_def normalized_name_def Let_def sd ed
        split: sum.splits if_splits)
  show "Event_Venue_Name ev = normalized_venue bs item"
    using assms
    by (auto simp add: schematize_event_def normalized_venue_def Let_def sd ed
        split: sum.splits if_splits)
qed

lemma schematize_loop_emits:
  "schematize_loop bs search acc items = Inr evs \<Longrightarrow>
   \<exists>new. evs = acc @ new \<and>
     list_all2 (\<lambda>ev item. schematize_event bs search item = Inr (Some ev))
       new (filter (\<lambda>item. \<not> excluded bs item) items)"
proof (induction items arbitrary: acc)
  case Nil
  then show ?case by simp
next
  case (Cons item items)
  show ?case
  proof (cases "schematize_event bs search item")
    case (Inl e)
    with Cons.prems show ?thesis by simp
  next
    case (Inr r)
    show ?thesis
    proof (cases r)
      case None
      with Inr have ex: "excluded bs item"
        using schematize_event_skips [of bs search item] by simp
      from Cons.prems Inr None have "schematize_loop bs search acc items = Inr evs" by simp
      from Cons.IH [OF this] ex show ?thesis by simp
    next
      case (Some ev)
      with Inr have nex: "\<not> excluded bs item"
        using schematize_event_skips [of bs search item] by simp
      from Cons.prems Inr Some
      have "schematize_loop bs search (acc @ [ev]) items = Inr evs" by simp
      from Cons.IH [OF this] obtain new where
        n: "evs = (acc @ [ev]) @ new"
        "list_all2 (\<lambda>ev item. schematize_event bs search item = Inr (Some ev))
           new (filter (\<lambda>item. \<not> excluded bs item) items)"
        by blast
      have "evs = acc @ (ev # new)" using n(1) by simp
      moreover have "list_all2 (\<lambda>ev item. schematize_event bs search item = Inr (Some ev))
           (ev # new) (filter (\<lambda>item. \<not> excluded bs item) (item # items))"
        using n(2) nex Inr Some by simp
      ultimately show ?thesis by blast
    qed
  qed
qed

lemma schematize_events_emits:
  assumes "schematize_events bs search items = Inr evs"
  shows "list_all2 (\<lambda>ev item. schematize_event bs search item = Inr (Some ev))
           evs (filter (\<lambda>item. \<not> excluded bs item) items)"
  using schematize_loop_emits [of bs search "[]" items evs] assms
  by (simp add: schematize_events_def)

text \<open>
  C7. When \<open>schematize_events\<close> returns, the costs of the emitted events are, in order,
  those that the rule assigns to the items that are not excluded: \<open>"0"\<close> when the
  free-of-charge flag is set; otherwise the characters of a non-empty cost description for
  which \<open>str.isdigit\<close> holds, in order; otherwise the empty string.
\<close>

theorem event_cost_rule:
  assumes "schematize_events bs search items = Inr evs"
  shows "map Event_Cost evs = map cost_rule (filter (\<lambda>item. \<not> excluded bs item) items)"
proof -
  have "list_all2 (\<lambda>ev item. Event_Cost ev = cost_rule item)
          evs (filter (\<lambda>item. \<not> excluded bs item) items)"
    using schematize_events_emits [OF assms]
    by (rule list_all2_mono) (simp add: schematize_event_emits(1))
  then show ?thesis
    by (induction rule: list_all2_induct) simp_all
qed

lemma sample_run: "\<exists>evs. schematize_events plain_text_soup no_results_search sample_items = Inr evs"
proof -
  have "case schematize_events plain_text_soup no_results_search sample_items of
          Inl e \<Rightarrow> False | Inr evs \<Rightarrow> True"
    by code_simp
  then show ?thesis
    by (cases "schematize_events plain_text_soup no_results_search sample_items") auto
qed

theorem event_cost_rule_witness:
  "\<exists>evs. schematize_events plain_text_soup no_results_search sample_items = Inr evs \<and>
         map Event_Cost evs = [''0'', ''512'', []]"
proof -
  obtain evs where run: "schematize_events plain_text_soup no_results_search sample_items = Inr evs"
    using sample_run by blast
  have "map cost_rule (filter (\<lambda>item. \<not> excluded plain_text_soup item) sample_items) =
          [''0'', ''512'', []]"
    by code_simp
  with event_cost_rule [OF run] run show ?thesis by simp
qed

text \<open>
  C8. The loop body emits no record for an item (\<open>continue\<close>) exactly when the normalised
  name contains "Task Force" or "Forestry Commission" or the normalised venue is "Earth
  Products Yard", contains "Library" or is empty. When \<open>schematize_events\<close> returns, the
  emitted events are those of the items that are not excluded, in order. An item whose
  venue is "Arlington Central Library" is excluded.
\<close>

theorem exclusion_rule:
  "(schematize_event bs search item = Inr None) = excluded bs item \<and>
   (schematize_events bs search items = Inr evs \<longrightarrow>
      map Event_Name evs = map (normalized_name bs) (filter (\<lambda>item. \<not> excluded bs item) items) \<and>
      map Event_Venue_Name evs =
        map (normalized_venue bs) (filter (\<lambda>item. \<not> excluded bs item) items)) \<and>
   (normalized_venue bs item = ''Arlington Central Library'' \<longrightarrow> excluded bs item)"
proof (intro conjI impI)
  show "(schematize_event bs search item = Inr None) = excluded bs item"
    by (rule schematize_event_skips)
next
  assume run: "schematize_events bs search items = Inr evs"
  have "list_all2 (\<lambda>ev item. Event_Name ev = normalized_name bs item)
          evs (filter (\<lambda>item. \<not> excluded bs item) items)"
    using schematize_events_emits [OF run]
    by (rule list_all2_mono) (simp add: schematize_event_emits(2))
  then show "map Event_Name evs =
      map (normalized_name bs) (filter (\<lambda>item. \<not> excluded bs item) items)"
    by (induction rule: list_all2_induct) simp_all
  have "list_all2 (\<lambda>ev item. Event_Venue_Name ev = normalized_venue bs item)
          evs (filter (\<lambda>item. \<not> excluded bs item) items)"
    using schematize_events_emits [OF run]
    by (rule list_all2_mono) (simp add: schematize_event_emits(3))
  then show "map Event_Venue_Name evs =
      map (normalized_venue bs) (filter (\<lambda>item. \<not> excluded bs item) items)"
    by (induction rule: list_all2_induct) simp_all
next
  assume "normalized_venue bs item = ''Arlington Central Library''"
  then show "excluded bs item" by (simp add: excluded_def)
qed

theorem exclusion_rule_witness:
  "normalized_venue plain_text_soup story_time = ''Arlington Central Library'' \<and>
   excluded plain_text_soup story_time \<and>
   schematize_event plain_text_soup no_results_search story_time = Inr None \<and>
   (\<exists>evs. schematize_events plain_text_soup no_results_search sample_items = Inr evs \<and>
      map Event_Name evs = [''Bird Walk'', ''Campfire'', ''Barcroft Park Invasive Plant Removal''] \<and>
      map Event_Venue_Name evs =
        [''Long Branch Nature Center'', ''Long Branch Nature Center'', ''Barcroft Park''])"
proof -
  obtain evs where run: "schematize_events plain_text_soup no_results_search sample_items = Inr evs"
    using sample_run by blast
  have v: "normalized_venue plain_text_soup story_time = ''Arlington Central Library''"
    by code_simp
  have n: "map (normalized_name plain_text_soup)
        (filter (\<lambda>item. \<not> excluded plain_text_soup item) sample_items) =
      [''Bird Walk'', ''Campfire'', ''Barcroft Park Invasive Plant Removal'']"
    by code_simp
  have w: "map (normalized_venue plain_text_soup)
        (filter (\<lambda>item. \<not> excluded plain_text_soup item) sample_items) =
      [''Long Branch Nature Center'', ''Long Branch Nature Center'', ''Barcroft Park'']"
    by code_simp
  show ?thesis
    using exclusion_rule [of plain_text_soup no_results_search story_time sample_items evs]
      run v n w
    by auto
qed

section \<open>Properties of event-name disambiguation\<close>




















text \<open>
  A name of white space only is cleaned to the empty string, and the empty string to the
  placeholder: whatever the parser, as long as it finds no \<open>p\<close> tag and only white space
  in a blank.
\<close>

lemma parse_event_name_blank:
  assumes "p_texts (bs '' '') = []" and "py_strip (whole_text (bs '' '')) = []"
  shows "parse_event_name bs '' '' = [] \<and>
         parse_event_name bs (parse_event_name bs '' '') = ''See event website.''"
proof -
  have one: "parse_event_name bs '' '' = []"
    using assms by (simp add: parse_event_name_def html_textraction_def)
  have two: "parse_event_name bs [] = ''See event website.''"
    by (simp add: parse_event_name_def html_textraction_def sub_spaces.simps(2))
  from one two show ?thesis by simp
qed




section \<open>Properties of the Source B pipeline\<close>

lemma update_mem_same: "(k, v) \<in> set (AList.update k v al)"
  by (induction al) auto

lemma update_mem_other: "k \<noteq> k' \<Longrightarrow> (k, v) \<in> set al \<Longrightarrow> (k, v) \<in> set (AList.update k' v' al)"
  by (induction al) auto

lemma setitem_simps:
  "n_rows (setitem df l cells) = n_rows df"
  "columns (setitem df l cells) = AList.update l cells (columns df)"
  by (simp_all add: setitem_def)

lemma assign_all_snoc: "assign_all (kw @ [(l, v)]) df = assign l v (assign_all kw df)"
  by (simp add: assign_all_def)

lemma n_rows_assign_all: "n_rows (assign_all kw df) = n_rows df"
proof (induction kw rule: rev_induct)
  case Nil
  then show ?case by (simp add: assign_all_def)
next
  case (snoc x xs)
  then show ?case by (cases x) (simp add: assign_all_snoc assign_def setitem_simps)
qed

lemma assign_all_mem:
  "distinct (map fst kw) \<Longrightarrow> (l, v) \<in> set kw \<Longrightarrow>
   (l, replicate (n_rows df) v) \<in> set (columns (assign_all kw df))"
proof (induction kw rule: rev_induct)
  case Nil
  then show ?case by simp
next
  case (snoc x xs)
  obtain l' v' where x: "x = (l', v')" by (cases x)
  from snoc.prems(1) x have d: "distinct (map fst xs)" and nl: "l' \<notin> fst ` set xs" by simp_all
  show ?case
  proof (cases "l = l'")
    case True
    with nl have "(l, v) \<notin> set xs" by force
    with snoc.prems(2) x have "v = v'" by simp
    with True show ?thesis
      by (simp add: x assign_all_snoc assign_def setitem_simps n_rows_assign_all update_mem_same)
  next
    case False
    with snoc.prems(2) x have m: "(l, v) \<in> set xs" by simp
    from snoc.IH [OF d m] False show ?thesis
      by (simp add: x assign_all_snoc assign_def setitem_simps update_mem_other)
  qed
qed

lemma assign_all_lookup:
  "l \<notin> fst ` set kw \<Longrightarrow> map_of (columns (assign_all kw df)) l = map_of (columns df) l"
proof (induction kw rule: rev_induct)
  case Nil
  then show ?case by (simp add: assign_all_def)
next
  case (snoc x xs)
  then show ?case
    by (cases x) (auto simp add: assign_all_snoc assign_def setitem_simps update_conv')
qed

lemma format_loop_n_rows:
  "format_loop parse cm df = Inr df' \<Longrightarrow> n_rows df' = n_rows df"
proof (induction cm arbitrary: df)
  case Nil
  then show ?case by simp
next
  case (Cons a cm)
  obtain key val where a: "a = (key, val)" by (cases a)
  from Cons.prems obtain cells vs where
    "format_loop parse cm (setitem df key vs) = Inr df'"
    by (auto simp add: a split: sum.splits)
  from Cons.IH [OF this] show ?case by (simp add: setitem_simps)
qed

lemma format_loop_keeps:
  "format_loop parse cm df = Inr df' \<Longrightarrow> l \<notin> fst ` set cm \<Longrightarrow>
   (l, cs) \<in> set (columns df) \<Longrightarrow> (l, cs) \<in> set (columns df')"
proof (induction cm arbitrary: df)
  case Nil
  then show ?case by simp
next
  case (Cons a cm)
  obtain key val where a: "a = (key, val)" by (cases a)
  from Cons.prems(1) obtain vs where
    step: "format_loop parse cm (setitem df key vs) = Inr df'"
    by (auto simp add: a split: sum.splits)
  from Cons.prems(2) a have ne: "l \<noteq> key" and rest: "l \<notin> fst ` set cm" by auto
  have "(l, cs) \<in> set (columns (setitem df key vs))"
    using Cons.prems(3) ne by (simp add: setitem_simps update_mem_other)
  from Cons.IH [OF step rest this] show ?case .
qed

lemma drop_columns_keeps:
  "drop_columns ls df = Inr df' \<Longrightarrow> l \<notin> set ls \<Longrightarrow> (l, cs) \<in> set (columns df) \<Longrightarrow>
   (l, cs) \<in> set (columns df')"
  by (auto simp add: drop_columns_def split: list.splits)

lemma drop_columns_n_rows: "drop_columns ls df = Inr df' \<Longrightarrow> n_rows df' = n_rows df"
  by (auto simp add: drop_columns_def split: list.splits)

lemma rename_columns_mem:
  "(l, cs) \<in> set (columns df) \<Longrightarrow> map_of m l = Some l' \<Longrightarrow>
   (l', cs) \<in> set (columns (rename_columns m df))"
  by (force simp add: rename_columns_def)

lemma rename_columns_n_rows: "n_rows (rename_columns m df) = n_rows df"
  by (simp add: rename_columns_def)

lemma frame_records_mem:
  "(l, cs) \<in> set (columns df) \<Longrightarrow> r \<in> set (frame_records df) \<Longrightarrow>
   \<exists>i<n_rows df. (l, cs ! i) \<in> set r"
  by (force simp add: frame_records_def)

lemma frame_records_labels:
  "r \<in> set (frame_records df) \<Longrightarrow> map fst r = map fst (columns df)"
  by (auto simp add: frame_records_def)

lemma main_stages:
  assumes "main web parse = Inr df"
  obtains events records df2 df3 where
    "make_request_content web CALENDAR_BASE_URL = Inr events"
    "crawl web (a_hrefs events) [] = Inr records"
    "format_df_time_columns parse (assign_all defaults (from_records records)) = Inr df2"
    "drop_columns [''Start Date'', ''Start Time''] df2 = Inr df3"
    "df = rename_columns RENAME_MAP df3"
  using assms by (auto simp add: main_def split: sum.splits)

lemma from_records_n_rows: "n_rows (from_records records) = length records"
  by (simp add: from_records_def)

lemma main_n_rows:
  assumes "main web parse = Inr df"
  shows "\<exists>events records. make_request_content web CALENDAR_BASE_URL = Inr events \<and>
    crawl web (a_hrefs events) [] = Inr records \<and> n_rows df = length records"
proof -
  from assms obtain events records df2 df3 where
    s: "make_request_content web CALENDAR_BASE_URL = Inr events"
      "crawl web (a_hrefs events) [] = Inr records"
      "format_df_time_columns parse (assign_all defaults (from_records records)) = Inr df2"
      "drop_columns [''Start Date'', ''Start Time''] df2 = Inr df3"
      "df = rename_columns RENAME_MAP df3"
    by (rule main_stages)
  have "n_rows df = length records"
    using format_loop_n_rows [OF s(3) [unfolded format_df_time_columns_def]]
      drop_columns_n_rows [OF s(4)]
    by (simp add: s(5) rename_columns_n_rows n_rows_assign_all from_records_n_rows)
  with s show ?thesis by blast
qed

lemma default_column:
  assumes m: "main web parse = Inr df" and d: "(l, v) \<in> set defaults"
    and rn: "map_of RENAME_MAP l = Some l'"
  shows "(l', replicate (n_rows df) v) \<in> set (columns df)"
proof -
  from m obtain events records df2 df3 where
    s: "format_df_time_columns parse (assign_all defaults (from_records records)) = Inr df2"
      "drop_columns [''Start Date'', ''Start Time''] df2 = Inr df3"
      "df = rename_columns RENAME_MAP df3"
    by (rule main_stages)
  let ?df1 = "assign_all defaults (from_records records)"
  have n: "n_rows df = n_rows ?df1"
    using format_loop_n_rows [OF s(1) [unfolded format_df_time_columns_def]]
      drop_columns_n_rows [OF s(2)]
    by (simp add: s(3) rename_columns_n_rows)
  have dist: "distinct (map fst defaults)" by (simp add: defaults_def)
  have c1: "(l, replicate (n_rows df) v) \<in> set (columns ?df1)"
    using assign_all_mem [OF dist d, of "from_records records"]
    by (simp add: n n_rows_assign_all)
  have nk: "l \<notin> fst ` set cols_mapper" and nd: "l \<notin> set [''Start Date'', ''Start Time'']"
    using d by (auto simp add: defaults_def cols_mapper_def)
  have c2: "(l, replicate (n_rows df) v) \<in> set (columns df2)"
    using format_loop_keeps [OF s(1) [unfolded format_df_time_columns_def] nk c1] .
  have c3: "(l, replicate (n_rows df) v) \<in> set (columns df3)"
    using drop_columns_keeps [OF s(2) nd c2] .
  from rename_columns_mem [OF c3 rn] show ?thesis by (simp only: s(3) [symmetric])
qed

lemma default_field:
  assumes m: "main web parse = Inr df" and d: "(l, v) \<in> set defaults"
    and rn: "map_of RENAME_MAP l = Some l'" and r: "r \<in> set (frame_records df)"
  shows "(l', v) \<in> set r"
proof -
  from frame_records_mem [OF default_column [OF m d rn] r]
  obtain i where "i < n_rows df" "(l', replicate (n_rows df) v ! i) \<in> set r" by blast
  then show ?thesis by simp
qed

text \<open>
  C9. Every record of the frame that \<open>main\<close> returns carries the seven default values under
  their final labels; and where the labels of the frame are distinct, these are the values
  found under those labels.
\<close>

theorem defaults_in_every_record:
  assumes "main web parse = Inr df"
  shows "\<forall>r\<in>set (frame_records df).
           (''Event Currency Symbol'', PyStr ''$'') \<in> set r \<and>
           (''Timezone'', PyStr ''America/New_York'') \<in> set r \<and>
           (''Event Organizers'', PyStr ''Potomac Appalachian Trail Club'') \<in> set r \<and>
           (''All Day Event'', PyBool False) \<in> set r \<and>
           (''Event End Time'', PyStr ''23:59:59'') \<in> set r \<and>
           (''Event Cost'', PyInt 0) \<in> set r \<and>
           (''Event Venue Name'', PyStr ''Please refer to website'') \<in> set r \<and>
           (distinct (map fst (columns df)) \<longrightarrow>
              map_of r ''Event Currency Symbol'' = Some (PyStr ''$'') \<and>
              map_of r ''Timezone'' = Some (PyStr ''America/New_York'') \<and>
              map_of r ''Event Organizers'' = Some (PyStr ''Potomac Appalachian Trail Club'') \<and>
              map_of r ''All Day Event'' = Some (PyBool False) \<and>
              map_of r ''Event End Time'' = Some (PyStr ''23:59:59'') \<and>
              map_of r ''Event Cost'' = Some (PyInt 0) \<and>
              map_of r ''Event Venue Name'' = Some (PyStr ''Please refer to website''))"
proof
  fix r assume r: "r \<in> set (frame_records df)"
  have f1: "(''Event Currency Symbol'', PyStr ''$'') \<in> set r"
    by (rule default_field [OF assms _ _ r, of "''currency''"])
      (simp_all add: defaults_def RENAME_MAP_def)
  have f2: "(''Timezone'', PyStr ''America/New_York'') \<in> set r"
    by (rule default_field [OF assms _ _ r, of "''time_zone''"])
      (simp_all add: defaults_def RENAME_MAP_def)
  have f3: "(''Event Organizers'', PyStr ''Potomac Appalachian Trail Club'') \<in> set r"
    by (rule default_field [OF assms _ _ r, of "''event_organizers''"])
      (simp_all add: defaults_def RENAME_MAP_def)
  have f4: "(''All Day Event'', PyBool False) \<in> set r"
    by (rule default_field [OF assms _ _ r, of "''all_day_event''"])
      (simp_all add: defaults_def RENAME_MAP_def)
  have f5: "(''Event End Time'', PyStr ''23:59:59'') \<in> set r"
    by (rule default_field [OF assms _ _ r, of "''end_time''"])
      (simp_all add: defaults_def RENAME_MAP_def)
  have f6: "(''Event Cost'', PyInt 0) \<in> set r"
    by (rule default_field [OF assms _ _ r, of "''event_cost''"])
      (simp_all add: defaults_def RENAME_MAP_def)
  have f7: "(''Event Venue Name'', PyStr ''Please refer to website'') \<in> set r"
    by (rule default_field [OF assms _ _ r, of "''venue''"])
      (simp_all add: defaults_def RENAME_MAP_def)
  have look: "distinct (map fst (columns df)) \<Longrightarrow> (l, v) \<in> set r \<Longrightarrow> map_of r l = Some v" for l v
    using frame_records_labels [OF r] by (simp add: map_of_is_SomeI)
  show "(''Event Currency Symbol'', PyStr ''$'') \<in> set r \<and>
           (''Timezone'', PyStr ''America/New_York'') \<in> set r \<and>
           (''Event Organizers'', PyStr ''Potomac Appalachian Trail Club'') \<in> set r \<and>
           (''All Day Event'', PyBool False) \<in> set r \<and>
           (''Event End Time'', PyStr ''23:59:59'') \<in> set r \<and>
           (''Event Cost'', PyInt 0) \<in> set r \<and>
           (''Event Venue Name'', PyStr ''Please refer to website'') \<in> set r \<and>
           (distinct (map fst (columns df)) \<longrightarrow>
              map_of r ''Event Currency Symbol'' = Some (PyStr ''$'') \<and>
              map_of r ''Timezone'' = Some (PyStr ''America/New_York'') \<and>
              map_of r ''Event Organizers'' = Some (PyStr ''Potomac Appalachian Trail Club'') \<and>
              map_of r ''All Day Event'' = Some (PyBool False) \<and>
              map_of r ''Event End Time'' = Some (PyStr ''23:59:59'') \<and>
              map_of r ''Event Cost'' = Some (PyInt 0) \<and>
              map_of r ''Event Venue Name'' = Some (PyStr ''Please refer to website''))"
    using f1 f2 f3 f4 f5 f6 f7 look by blast
qed

lemma sample_main: "main sample_site iso_parse = Inr sample_frame"
  by code_simp

theorem defaults_in_every_record_witness:
  "main sample_site iso_parse = Inr sample_frame \<and> length (frame_records sample_frame) = 2 \<and>
   list_all (\<lambda>r. map_of r ''Event Currency Symbol'' = Some (PyStr ''$'') \<and>
                 map_of r ''Timezone'' = Some (PyStr ''America/New_York'') \<and>
                 map_of r ''Event Organizers'' = Some (PyStr ''Potomac Appalachian Trail Club'') \<and>
                 map_of r ''All Day Event'' = Some (PyBool False) \<and>
                 map_of r ''Event End Time'' = Some (PyStr ''23:59:59'') \<and>
                 map_of r ''Event Cost'' = Some (PyInt 0) \<and>
                 map_of r ''Event Venue Name'' = Some (PyStr ''Please refer to website''))
     (frame_records sample_frame)"
proof -
  have two: "length (frame_records sample_frame) = 2"
    and dist: "distinct (map fst (columns sample_frame))"
    by (simp_all add: frame_records_def sample_frame_def)
  from defaults_in_every_record [OF sample_main] dist
  have "list_all (\<lambda>r. map_of r ''Event Currency Symbol'' = Some (PyStr ''$'') \<and>
                 map_of r ''Timezone'' = Some (PyStr ''America/New_York'') \<and>
                 map_of r ''Event Organizers'' = Some (PyStr ''Potomac Appalachian Trail Club'') \<and>
                 map_of r ''All Day Event'' = Some (PyBool False) \<and>
                 map_of r ''Event End Time'' = Some (PyStr ''23:59:59'') \<and>
                 map_of r ''Event Cost'' = Some (PyInt 0) \<and>
                 map_of r ''Event Venue Name'' = Some (PyStr ''Please refer to website''))
     (frame_records sample_frame)"
    unfolding list_all_iff by blast
  with sample_main two show ?thesis by blast
qed

lemma apply_cells_length: "apply_cells f cs = Inr vs \<Longrightarrow> length vs = length cs"
  by (induction cs arbitrary: vs) (auto split: sum.splits)

lemma apply_cells_values:
  "apply_cells f cs = Inr vs \<Longrightarrow> v \<in> set vs \<Longrightarrow> \<exists>c\<in>set cs. f c = Inr v"
  by (induction cs arbitrary: vs) (auto split: sum.splits)

lemma parse_date_value: "parse_date parse c = Inr v \<Longrightarrow> \<exists>y m d. v = PyDate y m d"
  by (auto simp add: parse_date_def split: cell.splits sum.splits)

lemma date_keys:
  "py_in ''date'' ''start_date''" "\<not> py_in ''date'' ''start_time''" "py_in ''date'' ''end_date''"
  by code_simp+

lemma getitem_setitem_other:
  "l \<noteq> k \<Longrightarrow> getitem (setitem df k cells) l = getitem df l"
  by (simp add: getitem_def setitem_simps update_conv')

lemma format_stages:
  assumes "format_df_time_columns parse df = Inr df'"
  shows "\<exists>c ds. map_of (columns df) ''Start Date'' = Some c \<and>
           apply_cells (parse_date parse) c = Inr ds \<and>
           (''start_date'', ds) \<in> set (columns df') \<and> (''end_date'', ds) \<in> set (columns df')"
proof -
  from assms obtain c ds where c: "getitem df ''Start Date'' = Inr c"
    and ds: "apply_cells (parse_date parse) c = Inr ds"
    and r1: "format_loop parse [(''start_time'', ''Start Time''), (''end_date'', ''Start Date'')]
               (setitem df ''start_date'' ds) = Inr df'"
    by (auto simp add: format_df_time_columns_def cols_mapper_def date_keys split: sum.splits)
  let ?a = "setitem df ''start_date'' ds"
  from r1 obtain ts where
    r2: "format_loop parse [(''end_date'', ''Start Date'')] (setitem ?a ''start_time'' ts) = Inr df'"
    by (auto simp add: date_keys split: sum.splits)
  let ?b = "setitem ?a ''start_time'' ts"
  have "getitem ?b ''Start Date'' = Inr c"
    using c by (simp add: getitem_setitem_other)
  with r2 ds have df': "df' = setitem ?b ''end_date'' ds"
    by (auto simp add: date_keys split: sum.splits)
  have "(''start_date'', ds) \<in> set (columns ?a)"
    by (simp add: setitem_simps update_mem_same)
  then have s: "(''start_date'', ds) \<in> set (columns df')"
    by (simp add: df' setitem_simps update_mem_other)
  have e: "(''end_date'', ds) \<in> set (columns df')"
    by (simp add: df' setitem_simps(2) update_mem_same)
  from c have "map_of (columns df) ''Start Date'' = Some c"
    by (auto simp add: getitem_def split: option.splits)
  with ds s e show ?thesis by blast
qed

lemma from_records_column:
  "map_of (columns (from_records records)) l = Some cs \<Longrightarrow> length cs = length records"
  by (auto simp add: from_records_def dest!: map_of_SomeD)

lemma frame_records_row:
  "r \<in> set (frame_records df) \<Longrightarrow>
   \<exists>i<n_rows df. r = map (\<lambda>(l, cells). (l, cells ! i)) (columns df)"
  by (auto simp add: frame_records_def)

lemma date_columns:
  assumes m: "main web parse = Inr df"
  shows "\<exists>dates. length dates = n_rows df \<and>
           (\<forall>c\<in>set dates. \<exists>y m d. c = PyDate y m d) \<and>
           (''Event Start Date'', dates) \<in> set (columns df) \<and>
           (''Event End Date'', dates) \<in> set (columns df)"
proof -
  from m obtain events records df2 df3 where
    s: "format_df_time_columns parse (assign_all defaults (from_records records)) = Inr df2"
      "drop_columns [''Start Date'', ''Start Time''] df2 = Inr df3"
      "df = rename_columns RENAME_MAP df3"
    by (rule main_stages)
  let ?df1 = "assign_all defaults (from_records records)"
  have n: "n_rows df = length records"
    using format_loop_n_rows [OF s(1) [unfolded format_df_time_columns_def]]
      drop_columns_n_rows [OF s(2)]
    by (simp add: s(3) rename_columns_n_rows n_rows_assign_all from_records_n_rows)
  from format_stages [OF s(1)] obtain c ds where
    c: "map_of (columns ?df1) ''Start Date'' = Some c"
    and ds: "apply_cells (parse_date parse) c = Inr ds"
    and sd: "(''start_date'', ds) \<in> set (columns df2)"
    and ed: "(''end_date'', ds) \<in> set (columns df2)"
    by blast
  have "''Start Date'' \<notin> fst ` set defaults" by (simp add: defaults_def)
  from assign_all_lookup [OF this] c
  have "map_of (columns (from_records records)) ''Start Date'' = Some c" by simp
  then have "length c = length records" by (rule from_records_column)
  with apply_cells_length [OF ds] n have len: "length ds = n_rows df" by simp
  have dates: "\<forall>v\<in>set ds. \<exists>y m d. v = PyDate y m d"
    using apply_cells_values [OF ds] parse_date_value by blast
  have "(''start_date'', ds) \<in> set (columns df3)"
    by (rule drop_columns_keeps [OF s(2) _ sd]) simp
  then have a: "(''Event Start Date'', ds) \<in> set (columns df)"
    unfolding s(3) by (rule rename_columns_mem) (simp add: RENAME_MAP_def)
  have "(''end_date'', ds) \<in> set (columns df3)"
    by (rule drop_columns_keeps [OF s(2) _ ed]) simp
  then have b: "(''Event End Date'', ds) \<in> set (columns df)"
    unfolding s(3) by (rule rename_columns_mem) (simp add: RENAME_MAP_def)
  from len dates a b show ?thesis by blast
qed

text \<open>
  C10. In every record of the frame that \<open>main\<close> returns, the end date is the start date:
  one date stands under both labels; and where the labels of the frame are distinct, it is
  the value found under each of them.
\<close>

theorem end_date_is_start_date:
  assumes "main web parse = Inr df"
  shows "\<forall>r\<in>set (frame_records df). \<exists>y m d.
           (''Event Start Date'', PyDate y m d) \<in> set r \<and>
           (''Event End Date'', PyDate y m d) \<in> set r \<and>
           (distinct (map fst (columns df)) \<longrightarrow>
              map_of r ''Event Start Date'' = Some (PyDate y m d) \<and>
              map_of r ''Event End Date'' = map_of r ''Event Start Date'')"
proof
  fix r assume r: "r \<in> set (frame_records df)"
  from date_columns [OF assms] obtain dates where
    len: "length dates = n_rows df"
    and dt: "\<forall>c\<in>set dates. \<exists>y m d. c = PyDate y m d"
    and a: "(''Event Start Date'', dates) \<in> set (columns df)"
    and b: "(''Event End Date'', dates) \<in> set (columns df)"
    by blast
  from frame_records_row [OF r] obtain i where i: "i < n_rows df"
    and row: "r = map (\<lambda>(l, cells). (l, cells ! i)) (columns df)" by blast
  from i len dt obtain y m d where v: "dates ! i = PyDate y m d"
    by (metis nth_mem)
  have sa: "(''Event Start Date'', PyDate y m d) \<in> set r"
    using a v unfolding row by force
  have sb: "(''Event End Date'', PyDate y m d) \<in> set r"
    using b v unfolding row by force
  have look: "distinct (map fst (columns df)) \<Longrightarrow> (l, c) \<in> set r \<Longrightarrow> map_of r l = Some c" for l c
    using frame_records_labels [OF r] by (simp add: map_of_is_SomeI)
  from sa sb look
  have "(''Event Start Date'', PyDate y m d) \<in> set r \<and>
           (''Event End Date'', PyDate y m d) \<in> set r \<and>
           (distinct (map fst (columns df)) \<longrightarrow>
              map_of r ''Event Start Date'' = Some (PyDate y m d) \<and>
              map_of r ''Event End Date'' = map_of r ''Event Start Date'')"
    by simp
  then show "\<exists>y m d.
           (''Event Start Date'', PyDate y m d) \<in> set r \<and>
           (''Event End Date'', PyDate y m d) \<in> set r \<and>
           (distinct (map fst (columns df)) \<longrightarrow>
              map_of r ''Event Start Date'' = Some (PyDate y m d) \<and>
              map_of r ''Event End Date'' = map_of r ''Event Start Date'')"
    by blast
qed

theorem end_date_is_start_date_witness:
  "main sample_site iso_parse = Inr sample_frame \<and>
   map (\<lambda>r. map_of r ''Event Start Date'') (frame_records sample_frame) =
     [Some (PyDate 2019 6 1), Some (PyDate 2019 6 8)] \<and>
   map (\<lambda>r. map_of r ''Event End Date'') (frame_records sample_frame) =
     map (\<lambda>r. map_of r ''Event Start Date'') (frame_records sample_frame)"
proof -
  have dist: "distinct (map fst (columns sample_frame))"
    by (simp add: sample_frame_def)
  have sd: "map (\<lambda>r. map_of r ''Event Start Date'') (frame_records sample_frame) =
      [Some (PyDate 2019 6 1), Some (PyDate 2019 6 8)]"
    by code_simp
  from end_date_is_start_date [OF sample_main] dist
  have "\<forall>r\<in>set (frame_records sample_frame).
      map_of r ''Event End Date'' = map_of r ''Event Start Date''"
    by blast
  then have "map (\<lambda>r. map_of r ''Event End Date'') (frame_records sample_frame) =
       map (\<lambda>r. map_of r ''Event Start Date'') (frame_records sample_frame)"
    by simp
  with sample_main sd show ?thesis by blast
qed

lemma scan_paras_append:
  "scan_paras (xs @ ys) results =
     (case scan_paras xs results of Inl e \<Rightarrow> Inl e | Inr r \<Rightarrow> scan_paras ys r)"
  by (induction xs arbitrary: results) (auto split: sum.splits)

lemma para_field_ambiguous: "1 < length (p_strongs p) \<Longrightarrow> para_field p = Inl ValueError"
  by (auto simp add: para_field_def split: list.splits)

lemma scan_paras_total:
  "\<forall>q\<in>set ps. keyword_para q \<longrightarrow> (\<exists>f. para_field q = Inr f) \<Longrightarrow>
   \<exists>r. scan_paras ps results = Inr r"
  by (induction ps arbitrary: results) (auto split: sum.splits)

lemma scan_paras_ambiguous:
  assumes "keyword_para p" and "1 < length (p_strongs p)"
  shows "\<exists>e. scan_paras (before @ p # after) results = Inl e"
    and "\<forall>q\<in>set before. keyword_para q \<longrightarrow> (\<exists>f. para_field q = Inr f) \<Longrightarrow>
         scan_paras (before @ p # after) results = Inl ValueError"
proof -
  have at: "scan_paras (p # after) r = Inl ValueError" for r
    using assms by (simp add: para_field_ambiguous)
  show "\<exists>e. scan_paras (before @ p # after) results = Inl e"
    by (cases "scan_paras before results") (simp_all add: scan_paras_append at del: scan_paras.simps)
  assume "\<forall>q\<in>set before. keyword_para q \<longrightarrow> (\<exists>f. para_field q = Inr f)"
  from scan_paras_total [OF this] obtain r where "scan_paras before results = Inr r" by blast
  then show "scan_paras (before @ p # after) results = Inl ValueError"
    by (simp add: scan_paras_append at del: scan_paras.simps)
qed

lemma detail_links_Cons:
  "detail_links (href # hrefs) =
     (let event_link = (case href of None \<Rightarrow> [] | Some l \<Rightarrow> l) in
      if py_in ''calendar.aspx'' event_link
      then posixpath_join ''Custom'' (posixpath_split_tail event_link) # detail_links hrefs
      else detail_links hrefs)"
  by (simp add: detail_links_def Let_def)

lemma detail_links_Nil: "detail_links [] = []"
  by (simp add: detail_links_def)

lemma crawl_raises:
  "l \<in> set (detail_links hrefs) \<Longrightarrow> find_event_data web l = Inl e \<Longrightarrow>
   \<exists>e'. crawl web hrefs records = Inl e'"
proof (induction hrefs arbitrary: records)
  case Nil
  then show ?case by (simp add: detail_links_Nil)
next
  case (Cons href hrefs)
  let ?link = "case href of None \<Rightarrow> [] | Some l \<Rightarrow> l"
  let ?l0 = "posixpath_join ''Custom'' (posixpath_split_tail ?link)"
  show ?case
  proof (cases "py_in ''calendar.aspx'' ?link")
    case False
    with Cons.prems have "l \<in> set (detail_links hrefs)"
      by (simp add: detail_links_Cons)
    from Cons.IH [OF this Cons.prems(2)] False show ?thesis by simp
  next
    case True
    show ?thesis
    proof (cases "find_event_data web ?l0")
      case (Inl e0)
      with True show ?thesis by simp
    next
      case (Inr d)
      with Cons.prems True have "l \<in> set (detail_links hrefs)"
        by (auto simp add: detail_links_Cons)
      from Cons.IH [OF this Cons.prems(2)] True Inr show ?thesis
        by (auto split: option.splits)
    qed
  qed
qed

lemma main_raises:
  assumes "make_request_content web CALENDAR_BASE_URL = Inr events"
    and "l \<in> set (detail_links (a_hrefs events))" and "find_event_data web l = Inl e"
  shows "\<exists>e'. main web parse = Inl e'"
proof -
  from crawl_raises [OF assms(2,3)] obtain e' where "crawl web (a_hrefs events) [] = Inl e'"
    by blast
  with assms(1) show ?thesis by (simp add: main_def)
qed

text \<open>
  C5 (amended). When a detail page with a \<open>th\<close> tag has a paragraph that holds a keyword
  and more than one \<open>strong\<close> tag, \<open>find_event_data\<close> raises: it returns no field of the
  page. The exception is the ValueError of \<open>mi.one\<close> when every keyword paragraph before
  that one yields its field. Nothing catches it: \<open>main\<close> raises whenever the calendar links
  to the page, and returns no record.
\<close>

theorem ambiguous_label_aborts:
  assumes page: "make_request_content web link = Inr res"
    and th: "th_texts res \<noteq> []"
    and ps: "paras res = before @ p # after"
    and kw: "keyword_para p"
    and two: "1 < length (p_strongs p)"
  shows "(\<exists>e. find_event_data web link = Inl e) \<and>
         ((\<forall>q\<in>set before. keyword_para q \<longrightarrow> (\<exists>f. para_field q = Inr f)) \<longrightarrow>
            find_event_data web link = Inl ValueError) \<and>
         (make_request_content web CALENDAR_BASE_URL = Inr events \<and>
          link \<in> set (detail_links (a_hrefs events)) \<longrightarrow>
            (\<exists>e. main web parse = Inl e))"
proof -
  have ne: "\<not> (th_texts res = [] \<or> paras res = [])" using th ps by simp
  from scan_paras_ambiguous(1) [OF kw two, of before after "initial_results res"]
  obtain e where e: "scan_paras (paras res) (initial_results res) = Inl e"
    unfolding ps by blast
  have f: "find_event_data web link = Inl e"
    using page ne e by (simp add: find_event_data_def)
  have v: "(\<forall>q\<in>set before. keyword_para q \<longrightarrow> (\<exists>f. para_field q = Inr f)) \<Longrightarrow>
      find_event_data web link = Inl ValueError"
    using scan_paras_ambiguous(2) [OF kw two, of before after "initial_results res"] page ne
    by (simp add: find_event_data_def ps)
  have m: "make_request_content web CALENDAR_BASE_URL = Inr events \<Longrightarrow>
      link \<in> set (detail_links (a_hrefs events)) \<Longrightarrow> \<exists>e. main web parse = Inl e"
    using f by (rule main_raises [rotated 2])
  from f v m show ?thesis by blast
qed

text \<open>
  C5 as stated fails: the failure is not confined to the field of the ambiguous paragraph.
  On a page whose first paragraph gives the start date and whose second has two \<open>strong\<close>
  tags, no field is returned, and the crawl that reaches the page returns no record, not
  even that of the page before it.
\<close>

theorem ambiguous_label_counterexample:
  "para_field (paras ambiguous_page ! 0) = Inr (''Start Date'', ''2019-06-15T08:00:00'') \<and>
   keyword_para (paras ambiguous_page ! 1) \<and> length (p_strongs (paras ambiguous_page ! 1)) = 2 \<and>
   find_event_data ambiguous_site ''Custom/calendar.aspx?id=1'' =
     Inr (Some [(''Event Name'', ''Hike at Sugarloaf''), (''Description'', ''A long hike.''),
                (''Start Date'', ''2019-06-01T09:00:00''), (''Start Time'', ''2019-06-01T09:00:00''),
                (''www'', ''https://www.patc.net/hike'')]) \<and>
   find_event_data ambiguous_site ''Custom/calendar.aspx?id=5'' = Inl ValueError \<and>
   main ambiguous_site iso_parse = Inl ValueError"
  by code_simp

theorem ambiguous_label_aborts_witness:
  "make_request_content ambiguous_site ''Custom/calendar.aspx?id=5'' = Inr ambiguous_page \<and>
   keyword_para (paras ambiguous_page ! 1) \<and> length (p_strongs (paras ambiguous_page ! 1)) = 2 \<and>
   find_event_data ambiguous_site ''Custom/calendar.aspx?id=5'' = Inl ValueError \<and>
   (\<exists>e. main ambiguous_site iso_parse = Inl e)"
proof -
  let ?link = "''Custom/calendar.aspx?id=5''"
  let ?p = "paras ambiguous_page ! 1"
  have page: "make_request_content ambiguous_site ?link = Inr ambiguous_page" by code_simp
  have th: "th_texts ambiguous_page \<noteq> []" by code_simp
  have ps: "paras ambiguous_page = [paras ambiguous_page ! 0] @ ?p # [paras ambiguous_page ! 2]"
    by (simp add: ambiguous_page_def)
  have kw: "keyword_para ?p" by code_simp
  have len: "length (p_strongs ?p) = 2" by code_simp
  then have two: "1 < length (p_strongs ?p)" by simp
  have first: "para_field (paras ambiguous_page ! 0) = Inr (''Start Date'', ''2019-06-15T08:00:00'')"
    by code_simp
  then have before: "\<forall>q\<in>set [paras ambiguous_page ! 0]. keyword_para q \<longrightarrow> (\<exists>f. para_field q = Inr f)"
    by simp
  have cal: "make_request_content ambiguous_site CALENDAR_BASE_URL = Inr (calendar_of [''1'', ''5''])"
    by code_simp
  have "detail_links (a_hrefs (calendar_of [''1'', ''5''])) =
      [''Custom/calendar.aspx?id=1'', ''Custom/calendar.aspx?id=5'']"
    by code_simp
  then have mem: "?link \<in> set (detail_links (a_hrefs (calendar_of [''1'', ''5''])))" by simp
  from ambiguous_label_aborts [OF page th ps kw two, of "calendar_of [''1'', ''5'']" iso_parse]
    before cal mem page kw len
  show ?thesis by blast
qed

end
